theory Spec2Isabelle
  imports Main "HOL-Library.AList"
begin

section \<open>The file organizer of \<open>organizer.py\<close>\<close>

text \<open>
  A shallow embedding of the class \<open>FileOrganizer\<close>: the category resolver, the
  collision-free namer, the file filter, the transfer loop of \<open>organize_files\<close>, the
  operations log and \<open>undo_operations\<close>, over an explicit model of the file system.
\<close>

subsection \<open>Python exceptions and \<open>except\<close> clauses\<close>

text \<open>
  The exceptions the code raises, receives from the library, or names in a handler.
  \<open>ShutilError\<close> is \<open>shutil.Error\<close>, \<open>ReError\<close> is \<open>re.error\<close>. \<open>OSError\<close> is an instance
  of the class \<open>OSError\<close> itself, as the operating system's \<open>ENAMETOOLONG\<close> gives;
  \<open>OverflowError\<close> is what \<open>re.search\<close> raises for a repeat count that is too large;
  \<open>AttributeError\<close> and \<open>TypeError\<close> are raised by a method call or a subscription on a
  value of the wrong type; \<open>UnicodeDecodeError\<close> by reading bytes that are not UTF-8.
\<close>

datatype exn =
    FileNotFoundError
  | NotADirectoryError
  | FileExistsError
  | IsADirectoryError
  | PermissionError
  | OSError
  | ShutilError
  | SameFileError
  | JSONDecodeError
  | UnicodeDecodeError
  | KeyError
  | TypeError
  | AttributeError
  | OverflowError
  | ReError

text \<open>
  What may stand in the tuple of an \<open>except\<close> clause. \<open>Cls_JSONDecoder\<close> is the class
  \<open>json.JSONDecoder\<close>: a decoder, not an exception class. \<open>Cls_IOError\<close> is \<open>IOError\<close>,
  an alias of \<open>OSError\<close>.
\<close>

datatype pyclass =
    Cls_Exception
  | Cls_OSError
  | Cls_IOError
  | Cls_FileNotFoundError
  | Cls_JSONDecodeError
  | Cls_KeyError
  | Cls_ReError
  | Cls_JSONDecoder

fun is_exception_class :: "pyclass \<Rightarrow> bool" where
  "is_exception_class Cls_JSONDecoder = False"
| "is_exception_class _ = True"

fun is_os_error :: "exn \<Rightarrow> bool" where
  "is_os_error FileNotFoundError = True"
| "is_os_error NotADirectoryError = True"
| "is_os_error FileExistsError = True"
| "is_os_error IsADirectoryError = True"
| "is_os_error PermissionError = True"
| "is_os_error OSError = True"
| "is_os_error ShutilError = True"
| "is_os_error SameFileError = True"
| "is_os_error _ = False"

fun isinstance :: "exn \<Rightarrow> pyclass \<Rightarrow> bool" where
  "isinstance e Cls_Exception = True"
| "isinstance e Cls_OSError = is_os_error e"
| "isinstance e Cls_IOError = is_os_error e"
| "isinstance e Cls_FileNotFoundError = (e = FileNotFoundError)"
| "isinstance e Cls_JSONDecodeError = (e = JSONDecodeError)"
| "isinstance e Cls_KeyError = (e = KeyError)"
| "isinstance e Cls_ReError = (e = ReError)"
| "isinstance e Cls_JSONDecoder = False"

text \<open>
  The test an \<open>except (C1, ..., Cn)\<close> clause makes when an exception \<open>e\<close> reaches it.
  The interpreter first checks that every member of the tuple is an exception class
  and raises \<open>TypeError\<close> (catching classes that do not inherit from BaseException is
  not allowed) when one is not; only then does it match \<open>e\<close> against the members.
  \<open>Inr True\<close>: the handler runs; \<open>Inr False\<close>: \<open>e\<close> propagates; \<open>Inl TypeError\<close>: the
  clause itself raises.
\<close>

definition except_match :: "pyclass list \<Rightarrow> exn \<Rightarrow> exn + bool" where
  "except_match classes e =
     (if \<exists>c \<in> set classes. \<not> is_exception_class c then Inl TypeError
      else Inr (\<exists>c \<in> set classes. isinstance e c))"

subsection \<open>Strings\<close>

text \<open>
  A Python \<open>str\<close> is the list of the bytes of its encoding as a file name (UTF-8):
  equality, membership and concatenation of strings are those of their encodings, the
  byte of an ASCII character such as the dot never occurs inside the encoding of
  another character, and the limits of the file system count these bytes.

  \<open>str.lower()\<close> follows the case tables of Unicode, which are not part of the
  repository: it is a parameter of the model, the field \<open>str_lower\<close> of the library
  below. On a string of ASCII characters it is \<open>ascii_lower\<close>: the letters \<open>A\<close> to \<open>Z\<close> go
  to \<open>a\<close> to \<open>z\<close> and every other character is kept.
\<close>

definition ascii_uppercase :: string where
  "ascii_uppercase = ''ABCDEFGHIJKLMNOPQRSTUVWXYZ''"

definition ascii_lowercase :: string where
  "ascii_lowercase = ''abcdefghijklmnopqrstuvwxyz''"

definition lower_char :: "char \<Rightarrow> char" where
  "lower_char c =
     (case map_of (zip ascii_uppercase ascii_lowercase) c of None \<Rightarrow> c | Some d \<Rightarrow> d)"

definition ascii_lower :: "string \<Rightarrow> string" where
  "ascii_lower s = map lower_char s"

definition is_ascii :: "string \<Rightarrow> bool" where
  "is_ascii s = list_all (\<lambda>c. (of_char c :: nat) < 128) s"

text \<open>
  The library functions whose result the code depends on and whose definition lies
  outside the repository. \<open>str_lower s\<close> is \<open>s.lower()\<close>. \<open>re_search pat s\<close> is
  \<open>re.search(pat, s, re.IGNORECASE)\<close>: \<open>Inr b\<close> when the call returns, \<open>b\<close> telling
  whether there is a match, and \<open>Inl e\<close> when it raises \<open>e\<close>, which is \<open>ReError\<close> for a
  pattern that is not a valid regular expression and another exception otherwise
  (\<open>OverflowError\<close> for the pattern \<open>a{4294967296}\<close>).
\<close>

record library =
  str_lower :: "string \<Rightarrow> string"
  re_search :: "string \<Rightarrow> string \<Rightarrow> exn + bool"

subsection \<open>Category resolver\<close>

text \<open>
  \<open>self.file_types\<close> is a dict from category to a list of extensions; a dict iterates in
  insertion order, so it is an association list here.
\<close>

type_synonym file_types = "(string \<times> string list) list"

definition DEFAULT_FILE_TYPES :: file_types where
  "DEFAULT_FILE_TYPES =
    [(''Images'', [''.jpg'', ''.jpeg'', ''.png'', ''.gif'', ''.bmp'', ''.svg'', ''.webp'', ''.tiff'', ''.ico'']),
     (''Documents'', [''.pdf'', ''.docx'', ''.txt'', ''.rtf'', ''.odt'', ''.pages'', ''.doc'']),
     (''Videos'', [''.mp4'', ''.mov'', ''.avi'', ''.mkv'', ''.wmv'', ''.flv'', ''.webm'', ''.m4v'']),
     (''Audio'', [''.mp3'', ''.wav'', ''.flac'', ''.aac'', ''.ogg'', ''.wma'', ''.m4a'']),
     (''Archives'', [''.zip'', ''.tar.gz'', ''.rar'', ''.7z'', ''.tar'', ''.gz'', ''.bz2'']),
     (''Code'', [''.py'', ''.js'', ''.html'', ''.css'', ''.java'', ''.cpp'', ''.c'', ''.h'', ''.php'', ''.rb'']),
     (''Spreadsheets'', [''.xlsx'', ''.xls'', ''.csv'', ''.ods'', ''.numbers'']),
     (''Presentations'', [''.pptx'', ''.ppt'', ''.odp'', ''.key'']),
     (''Executables'', [''.exe'', ''.msi'', ''.dmg'', ''.pkg'', ''.deb'', ''.rpm'', ''.app'']),
     (''Fonts'', [''.ttf'', ''.otf'', ''.woff'', ''.woff2'', ''.eot''])]"

text \<open>
  \<open>get_category\<close>: the loop over \<open>self.file_types.items()\<close>, returning at the first
  category whose lowered extensions contain the lowered input.
\<close>

fun get_category :: "library \<Rightarrow> file_types \<Rightarrow> string \<Rightarrow> string" where
  "get_category lib [] file_extension = ''Other''"
| "get_category lib ((category, extensions) # rest) file_extension =
     (if str_lower lib file_extension \<in> set (map (str_lower lib) extensions) then category
      else get_category lib rest file_extension)"

subsection \<open>Paths\<close>

text \<open>
  A \<open>pathlib.Path\<close> is the list of its components from the root. \<open>path_name\<close> and
  \<open>path_parent\<close> are \<open>Path.name\<close> and \<open>Path.parent\<close>; appending a component is the operator
  \<open>/\<close>, for a component that is a plain name.
\<close>

type_synonym path = "string list"

definition path_name :: "path \<Rightarrow> string" where
  "path_name p = (if p = [] then [] else last p)"

definition path_parent :: "path \<Rightarrow> path" where
  "path_parent p = butlast p"

text \<open>
  \<open>Path.suffix\<close> and \<open>Path.stem\<close> split the name at its last dot, when that dot is
  neither the first nor the last character (\<open>i = name.rfind('.')\<close>, \<open>0 < i < len(name) - 1\<close>);
  otherwise the suffix is empty and the stem is the name.
\<close>

definition rfind_dot :: "string \<Rightarrow> nat option" where
  "rfind_dot name =
     (if CHR ''.'' \<in> set name
      then Some (length name - 1 - length (takeWhile (\<lambda>c. c \<noteq> CHR ''.'') (rev name)))
      else None)"

definition path_suffix :: "string \<Rightarrow> string" where
  "path_suffix name =
     (case rfind_dot name of
        None \<Rightarrow> []
      | Some i \<Rightarrow> if 0 < i \<and> i < length name - 1 then drop i name else [])"

definition path_stem :: "string \<Rightarrow> string" where
  "path_stem name =
     (case rfind_dot name of
        None \<Rightarrow> name
      | Some i \<Rightarrow> if 0 < i \<and> i < length name - 1 then take i name else name)"

text \<open>\<open>str(counter)\<close>: the decimal digits of a natural number.\<close>

definition digit_char :: "nat \<Rightarrow> char" where
  "digit_char d = ''0123456789'' ! d"

function str_nat :: "nat \<Rightarrow> string" where
  "str_nat n = (if n < 10 then [digit_char n] else str_nat (n div 10) @ [digit_char (n mod 10)])"
  by pat_completeness auto
termination
  by (relation "measure (\<lambda>n. n)") auto

declare str_nat.simps [simp del]

text \<open>
  The file system is a finite list of entries, a path with its node; the order of the
  list is the order in which a directory listing yields the entries. The root \<open>[]\<close> is
  always a directory. Paths are the resolved paths \<open>Path(...).resolve()\<close> returns: their
  components are plain names, and links are not modelled. A regular file carries its
  bytes; its size is their number.
\<close>

datatype node = File string | Dir

type_synonym fs = "(path \<times> node) list"

definition node_at :: "fs \<Rightarrow> path \<Rightarrow> node option" where
  "node_at fs p = (if p = [] then Some Dir else map_of fs p)"

definition path_exists :: "fs \<Rightarrow> path \<Rightarrow> bool" where
  "path_exists fs p = (node_at fs p \<noteq> None)"

text \<open>
  \<open>Path.exists()\<close> as \<open>get_unique_filename\<close> calls it, on a path the program has built.
  The call is \<open>stat\<close>: the operating system refuses a path one of whose components is
  longer than \<open>NAME_MAX\<close> bytes, or whose text \<open>/c1/.../cn\<close> with its terminator is
  longer than \<open>PATH_MAX\<close> bytes, with the error \<open>ENAMETOOLONG\<close>, and \<open>Path.exists()\<close>
  re-raises every \<open>OSError\<close> other than \<open>ENOENT\<close>, \<open>ENOTDIR\<close>, \<open>EBADF\<close> and \<open>ELOOP\<close>. The
  limits are those of Linux: 255 and 4096. Permissions are not modelled: every
  directory can be searched and written. The other existence tests of the program are
  made on paths it is given (the source directory, the destination of a logged
  operation), which the file system accepts: they are \<open>path_exists\<close>.
\<close>

definition NAME_MAX :: nat where
  "NAME_MAX = 255"

definition PATH_MAX :: nat where
  "PATH_MAX = 4096"

definition name_too_long :: "path \<Rightarrow> bool" where
  "name_too_long p =
     (list_ex (\<lambda>c. NAME_MAX < length c) p \<or> PATH_MAX \<le> sum_list (map (\<lambda>c. 1 + length c) p))"

definition try_exists :: "fs \<Rightarrow> path \<Rightarrow> exn + bool" where
  "try_exists fs p = (if name_too_long p then Inl OSError else Inr (path_exists fs p))"

text \<open>
  \<open>get_unique_filename\<close>: the candidate \<open>parent / f"{stem}_{counter}{suffix}"\<close>, and the
  loop that returns the first candidate that does not exist, or raises what the
  existence test of a candidate raises. The loop ends because distinct counters give
  distinct candidates and finitely many paths exist.
\<close>

definition new_path :: "path \<Rightarrow> nat \<Rightarrow> path" where
  "new_path target_path counter =
     path_parent target_path @
       [path_stem (path_name target_path) @ ''_'' @ str_nat counter
          @ path_suffix (path_name target_path)]"

lemma digit_char_inj: "a < 10 \<Longrightarrow> b < 10 \<Longrightarrow> digit_char a = digit_char b \<Longrightarrow> a = b"
proof -
  assume a: "a < 10" and b: "b < 10" and eq: "digit_char a = digit_char b"
  have d: "distinct ''0123456789''" by simp
  have l: "length ''0123456789'' = 10" by simp
  from eq have "''0123456789'' ! a = ''0123456789'' ! b" by (simp only: digit_char_def)
  with d a b l show "a = b" by (simp only: nth_eq_iff_index_eq)
qed

lemma str_nat_nonempty: "str_nat n \<noteq> []"
  by (subst str_nat.simps) simp

lemma str_nat_last: "last (str_nat n) = digit_char (n mod 10)"
  by (subst str_nat.simps) simp

lemma str_nat_butlast: "butlast (str_nat n) = (if n < 10 then [] else str_nat (n div 10))"
  by (subst str_nat.simps) simp

lemma str_nat_inj: "str_nat m = str_nat n \<Longrightarrow> m = n"
proof (induction m arbitrary: n rule: less_induct)
  case (less m)
  from less.prems have l: "last (str_nat m) = last (str_nat n)"
    and bl: "butlast (str_nat m) = butlast (str_nat n)" by simp_all
  from l have "digit_char (m mod 10) = digit_char (n mod 10)"
    by (simp only: str_nat_last)
  then have md: "m mod 10 = n mod 10"
    by (intro digit_char_inj) simp_all
  show ?case
  proof (cases "m < 10")
    case True
    with bl have "n < 10"
      using str_nat_nonempty [of "n div 10"] by (simp add: str_nat_butlast split: if_splits)
    with True md show ?thesis by simp
  next
    case False
    with bl have n: "\<not> n < 10"
      using str_nat_nonempty [of "m div 10"] by (simp add: str_nat_butlast split: if_splits)
    with False bl have "str_nat (m div 10) = str_nat (n div 10)"
      by (simp add: str_nat_butlast)
    moreover from False have "m div 10 < m" by simp
    ultimately have "m div 10 = n div 10" by (rule less.IH [rotated])
    with md show ?thesis
      by (metis div_mult_mod_eq)
  qed
qed

lemma new_path_inj: "new_path p j = new_path p k \<Longrightarrow> j = k"
  by (rule str_nat_inj) (simp add: new_path_def)

lemma finite_existing_indices: "finite {k. path_exists fs (new_path p k)}"
proof -
  have "finite (insert [] (set (map fst fs)))" by simp
  moreover have "inj (new_path p)"
    by (rule injI) (rule new_path_inj)
  ultimately have "finite (new_path p -` insert [] (set (map fst fs)))"
    by (rule finite_vimageI)
  moreover have "{k. path_exists fs (new_path p k)} \<subseteq> new_path p -` insert [] (set (map fst fs))"
  proof
    fix k assume "k \<in> {k. path_exists fs (new_path p k)}"
    then have "new_path p k = [] \<or> map_of fs (new_path p k) \<noteq> None"
      by (simp add: path_exists_def node_at_def split: if_splits)
    then have "new_path p k = [] \<or> new_path p k \<in> fst ` set fs"
      by (simp add: map_of_eq_None_iff)
    then show "k \<in> new_path p -` insert [] (set (map fst fs))"
      by auto
  qed
  ultimately show ?thesis by (rule rev_finite_subset)
qed

function get_unique_loop :: "fs \<Rightarrow> path \<Rightarrow> nat \<Rightarrow> exn + path" where
  "get_unique_loop fs target_path counter =
     (case try_exists fs (new_path target_path counter) of
        Inl e \<Rightarrow> Inl e
      | Inr found \<Rightarrow>
          if \<not> found then Inr (new_path target_path counter)
          else get_unique_loop fs target_path (counter + 1))"
  by pat_completeness auto
termination
proof (relation "measure (\<lambda>(fs, p, c). card {k. c \<le> k \<and> path_exists fs (new_path p k)})")
  show "wf (measure (\<lambda>(fs, p, c). card {k. c \<le> k \<and> path_exists fs (new_path p k)}))"
    by simp
next
  fix fs :: fs and target_path :: path and counter :: nat and found :: bool
  assume "try_exists fs (new_path target_path counter) = Inr found" and "\<not> \<not> found"
  then have ex: "path_exists fs (new_path target_path counter)"
    by (simp add: try_exists_def split: if_splits)
  have fin: "finite {k. counter \<le> k \<and> path_exists fs (new_path target_path k)}"
    by (rule rev_finite_subset [OF finite_existing_indices [of fs target_path]]) blast
  have "{k. counter + 1 \<le> k \<and> path_exists fs (new_path target_path k)}
      \<subset> {k. counter \<le> k \<and> path_exists fs (new_path target_path k)}"
  proof
    show "{k. counter + 1 \<le> k \<and> path_exists fs (new_path target_path k)}
      \<subseteq> {k. counter \<le> k \<and> path_exists fs (new_path target_path k)}"
      by auto
    have "counter \<in> {k. counter \<le> k \<and> path_exists fs (new_path target_path k)}"
      using ex by simp
    moreover have "counter \<notin> {k. counter + 1 \<le> k \<and> path_exists fs (new_path target_path k)}"
      by simp
    ultimately show "{k. counter + 1 \<le> k \<and> path_exists fs (new_path target_path k)}
      \<noteq> {k. counter \<le> k \<and> path_exists fs (new_path target_path k)}"
      by blast
  qed
  with fin have "card {k. counter + 1 \<le> k \<and> path_exists fs (new_path target_path k)}
      < card {k. counter \<le> k \<and> path_exists fs (new_path target_path k)}"
    by (rule psubset_card_mono)
  then show "((fs, target_path, counter + 1), (fs, target_path, counter))
      \<in> measure (\<lambda>(fs, p, c). card {k. c \<le> k \<and> path_exists fs (new_path p k)})"
    by simp
qed

declare get_unique_loop.simps [simp del]

definition get_unique_filename :: "fs \<Rightarrow> path \<Rightarrow> exn + path" where
  "get_unique_filename fs target_path =
     (case try_exists fs target_path of
        Inl e \<Rightarrow> Inl e
      | Inr found \<Rightarrow>
          if \<not> found then Inr target_path
          else get_unique_loop fs target_path 1)"

subsection \<open>File system operations\<close>

text \<open>
  \<open>Path.is_file()\<close> and \<open>Path.is_dir()\<close>; the library calls below either succeed or raise
  without a partial effect. They are made on the paths the program is given (the
  source and the destination, the entries of a listing, the paths of a log file) and on
  targets whose existence test has returned: paths the file system accepts.
\<close>

definition is_file :: "fs \<Rightarrow> path \<Rightarrow> bool" where
  "is_file fs p = (case node_at fs p of Some (File c) \<Rightarrow> True | _ \<Rightarrow> False)"

definition is_dir :: "fs \<Rightarrow> path \<Rightarrow> bool" where
  "is_dir fs p = (node_at fs p = Some Dir)"

text \<open>
  A well-formed file system: what exists below the root lies in a directory.
\<close>

definition wf_fs :: "fs \<Rightarrow> bool" where
  "wf_fs fs = list_all (\<lambda>(p, n). p \<noteq> [] \<and> is_dir fs (path_parent p)) fs"

text \<open>
  \<open>Path.mkdir(parents=True, exist_ok=True)\<close>: walking down from the root, an existing
  directory is entered, a missing one is created, and a regular file on the way raises
  (\<open>FileExistsError\<close> when it is the path itself, \<open>NotADirectoryError\<close> when it is an
  ancestor). On a well-formed file system a failing call creates nothing, as nothing
  exists below a missing directory.
\<close>

fun mkdir_walk :: "fs \<Rightarrow> path \<Rightarrow> string list \<Rightarrow> exn + fs" where
  "mkdir_walk fs cur [] = Inr fs"
| "mkdir_walk fs cur (c # cs) =
     (case node_at fs (cur @ [c]) of
        Some Dir \<Rightarrow> mkdir_walk fs (cur @ [c]) cs
      | Some (File x) \<Rightarrow> Inl (if cs = [] then FileExistsError else NotADirectoryError)
      | None \<Rightarrow> mkdir_walk (fs @ [(cur @ [c], Dir)]) (cur @ [c]) cs)"

definition mkdir_parents :: "fs \<Rightarrow> path \<Rightarrow> exn + fs" where
  "mkdir_parents fs p = mkdir_walk fs [] p"

text \<open>
  The error of creating an entry at \<open>p\<close> when the parent of \<open>p\<close> is not a directory.
\<close>

definition parent_error :: "fs \<Rightarrow> path \<Rightarrow> exn option" where
  "parent_error fs p =
     (if is_dir fs (path_parent p) then None
      else if path_exists fs (path_parent p) then Some NotADirectoryError
      else Some FileNotFoundError)"

definition rename_tree :: "fs \<Rightarrow> path \<Rightarrow> path \<Rightarrow> fs" where
  "rename_tree fs src dst =
     map (\<lambda>(p, n). if take (length src) p = src then (dst @ drop (length src) p, n) else (p, n)) fs"

text \<open>
  \<open>shutil.move(src, dst)\<close>. When \<open>dst\<close> is an existing directory the source is moved
  inside it, under its own name, and \<open>shutil.Error\<close> is raised when that name is taken
  there. Otherwise \<open>os.rename\<close> puts a regular file at the destination, replacing a
  regular file that is there. A directory is moved with everything below it; the
  fallback (\<open>copytree\<close>, then \<open>rmtree\<close>) creates the missing parents of the destination,
  and moving a directory into itself raises \<open>shutil.Error\<close>.
\<close>

definition shutil_move :: "fs \<Rightarrow> path \<Rightarrow> path \<Rightarrow> exn + fs" where
  "shutil_move fs src dst =
     (if is_dir fs dst \<and> src = dst then Inr fs
      else
        let real_dst = (if is_dir fs dst then dst @ [path_name src] else dst) in
        if is_dir fs dst \<and> path_exists fs real_dst then Inl ShutilError
        else
          (case node_at fs src of
             None \<Rightarrow> Inl FileNotFoundError
           | Some (File c) \<Rightarrow>
               (case parent_error fs real_dst of
                  Some e \<Rightarrow> Inl e
                | None \<Rightarrow> Inr (AList.update real_dst (File c) (AList.delete src fs)))
           | Some Dir \<Rightarrow>
               if take (length src) real_dst = src then Inl ShutilError
               else if is_file fs real_dst then Inl FileExistsError
               else
                 (case mkdir_parents fs (path_parent real_dst) of
                    Inl e \<Rightarrow> Inl NotADirectoryError
                  | Inr fs1 \<Rightarrow> Inr (rename_tree fs1 src real_dst))))"

text \<open>
  \<open>shutil.copy2(src, dst)\<close>: the bytes of the regular file \<open>src\<close> are written to \<open>dst\<close>, or
  to \<open>dst/name\<close> when \<open>dst\<close> is a directory; copying a file onto itself raises
  \<open>SameFileError\<close>.
\<close>

definition shutil_copy2 :: "fs \<Rightarrow> path \<Rightarrow> path \<Rightarrow> exn + fs" where
  "shutil_copy2 fs src dst =
     (let real_dst = (if is_dir fs dst then dst @ [path_name src] else dst) in
      if path_exists fs src \<and> real_dst = src then Inl SameFileError
      else
        (case node_at fs src of
           None \<Rightarrow> Inl FileNotFoundError
         | Some Dir \<Rightarrow> Inl IsADirectoryError
         | Some (File c) \<Rightarrow>
             if is_dir fs real_dst then Inl IsADirectoryError
             else
               (case parent_error fs real_dst of
                  Some e \<Rightarrow> Inl e
                | None \<Rightarrow> Inr (AList.update real_dst (File c) fs))))"

text \<open>\<open>Path.unlink()\<close> removes a regular file.\<close>

definition unlink :: "fs \<Rightarrow> path \<Rightarrow> exn + fs" where
  "unlink fs p =
     (case node_at fs p of
        None \<Rightarrow> Inl FileNotFoundError
      | Some Dir \<Rightarrow> Inl IsADirectoryError
      | Some (File c) \<Rightarrow> Inr (AList.delete p fs))"

text \<open>
  \<open>Path.stat().st_size\<close>. The size a directory reports depends on the file system;
  \<open>4096\<close> stands for it.
\<close>

definition st_size :: "fs \<Rightarrow> path \<Rightarrow> exn + int" where
  "st_size fs p =
     (case node_at fs p of
        None \<Rightarrow> Inl FileNotFoundError
      | Some (File c) \<Rightarrow> Inr (int (length c))
      | Some Dir \<Rightarrow> Inr 4096)"

text \<open>
  \<open>Path.iterdir()\<close> yields the children of a directory and \<open>Path.rglob("*")\<close> everything
  below it, each entry once.
\<close>

definition iterdir :: "fs \<Rightarrow> path \<Rightarrow> path list" where
  "iterdir fs d = [p \<leftarrow> remdups (map fst fs). p \<noteq> [] \<and> path_parent p = d]"

definition rglob_all :: "fs \<Rightarrow> path \<Rightarrow> path list" where
  "rglob_all fs d = [p \<leftarrow> remdups (map fst fs). length d < length p \<and> take (length d) p = d]"

subsection \<open>The organizer and its world\<close>

text \<open>
  What the program prints, and what it logs at the levels \<open>WARNING\<close> and \<open>ERROR\<close>, kept
  structured rather than formatted (the messages of the levels \<open>INFO\<close> and \<open>DEBUG\<close> are
  left out).
\<close>

datatype line =
    Print_DryRun string path path
  | Print_Done string string string
  | Print_UndoDryRun path path
  | Print_Undone string path
  | Print_RemovedCopy path

datatype log_record =
    Log_Warning_InvalidRegex string
  | Log_Error_Processing path exn
  | Log_Error_Undoing exn
  | Log_Error_ReadingUndoLog exn
  | Log_Warning_ConfigNotFound
  | Log_Error_LoadingConfig exn

text \<open>
  An entry of \<open>self.operations_log\<close>. The key \<open>timestamp\<close> (the wall clock at the time of
  the transfer, which nothing reads back) is left out.
\<close>

record ledger_entry =
  e_operation :: string
  e_source :: path
  e_destination :: path
  e_category :: string

text \<open>
  The object \<open>self\<close> (\<open>file_types\<close>, \<open>operations_log\<close>) together with the world it acts on:
  the file system, the standard output and the logger.
\<close>

record world =
  file_types :: file_types
  operations_log :: "ledger_entry list"
  disk :: fs
  printed :: "line list"
  logged :: "log_record list"

text \<open>The keyword options of \<open>organize_files\<close>, with their defaults in \<open>default_options\<close>.\<close>

record options =
  dry_run :: bool
  recursive :: bool
  copy_files :: bool
  pattern :: "string option"
  exclude_pattern :: "string option"
  min_size :: "int option"
  max_size :: "int option"

definition default_options :: options where
  "default_options =
     \<lparr>dry_run = False, recursive = False, copy_files = False, pattern = None,
      exclude_pattern = None, min_size = None, max_size = None\<rparr>"

text \<open>Python's truth value of an optional string: \<open>None\<close> and \<open>""\<close> are false.\<close>

definition truthy :: "string option \<Rightarrow> bool" where
  "truthy s = (case s of None \<Rightarrow> False | Some x \<Rightarrow> x \<noteq> [])"

text \<open>
  \<open>matches_pattern\<close>, with the warning it logs: \<open>Inr b\<close> when it returns \<open>b\<close>, \<open>Inl e\<close> when
  \<open>re.search\<close> raises an exception \<open>e\<close> that the handler \<open>except re.error\<close> does not catch.
\<close>

definition matches_pattern ::
  "library \<Rightarrow> string \<Rightarrow> string option \<Rightarrow> (exn + bool) \<times> log_record list" where
  "matches_pattern lib filename pat =
     (if \<not> truthy pat then (Inr True, [])
      else
        (case re_search lib (the pat) filename of
           Inr b \<Rightarrow> (Inr b, [])
         | Inl e \<Rightarrow>
             (case except_match [Cls_ReError] e of
                Inl raised \<Rightarrow> (Inl raised, [])
              | Inr False \<Rightarrow> (Inl e, [])
              | Inr True \<Rightarrow> (Inr True, [Log_Warning_InvalidRegex (the pat)]))))"

text \<open>\<open>check_file_size\<close>; \<open>stat\<close> raises subclasses of \<open>OSError\<close> only.\<close>

definition check_file_size :: "fs \<Rightarrow> path \<Rightarrow> int option \<Rightarrow> int option \<Rightarrow> bool" where
  "check_file_size fs file_path min_sz max_sz =
     (case st_size fs file_path of
        Inl e \<Rightarrow> True
      | Inr file_size \<Rightarrow>
          if min_sz \<noteq> None \<and> file_size < the min_sz then False
          else if max_sz \<noteq> None \<and> file_size > the max_sz then False
          else True)"

text \<open>
  The filters at the head of the loop body of \<open>organize_files\<close>: \<open>Inr True\<close> when the
  file goes on, \<open>Inr False\<close> when a \<open>continue\<close> is taken, \<open>Inl e\<close> when matching a pattern
  raises \<open>e\<close>; with the warnings logged on the way. The exclude pattern is matched only
  when it is present and not empty.
\<close>

definition apply_filters ::
  "library \<Rightarrow> options \<Rightarrow> fs \<Rightarrow> path \<Rightarrow> (exn + bool) \<times> log_record list" where
  "apply_filters lib opts fs file_path =
     (case matches_pattern lib (path_name file_path) (pattern opts) of
        (Inl e, warn_incl) \<Rightarrow> (Inl e, warn_incl)
      | (Inr m_incl, warn_incl) \<Rightarrow>
          if \<not> m_incl then (Inr False, warn_incl)
          else
            (case (if truthy (exclude_pattern opts)
                   then matches_pattern lib (path_name file_path) (exclude_pattern opts)
                   else (Inr False, [])) of
               (Inl e, warn_excl) \<Rightarrow> (Inl e, warn_incl @ warn_excl)
             | (Inr m_excl, warn_excl) \<Rightarrow>
                 if m_excl then (Inr False, warn_incl @ warn_excl)
                 else if \<not> check_file_size fs file_path (min_size opts) (max_size opts)
                 then (Inr False, warn_incl @ warn_excl)
                 else (Inr True, warn_incl @ warn_excl)))"

text \<open>
  The target of a file: \<open>get_unique_filename(dest_path / category / name)\<close>, which is a
  path or an exception.
\<close>

definition target_dir_of :: "library \<Rightarrow> world \<Rightarrow> path \<Rightarrow> path \<Rightarrow> path" where
  "target_dir_of lib w dest_path file_path =
     dest_path @ [get_category lib (file_types w) (path_suffix (path_name file_path))]"

definition target_file_of :: "library \<Rightarrow> world \<Rightarrow> path \<Rightarrow> path \<Rightarrow> exn + path" where
  "target_file_of lib w dest_path file_path =
     get_unique_filename (disk w) (target_dir_of lib w dest_path file_path @ [path_name file_path])"

text \<open>
  The body of the \<open>try\<close> in the loop of \<open>organize_files\<close>, for one file. It returns the
  exception that leaves the body, if any, with the counters \<open>(files_processed,
  files_moved)\<close> and the world as they are at that point.
\<close>

definition organize_body ::
  "library \<Rightarrow> path \<Rightarrow> options \<Rightarrow> path \<Rightarrow> nat \<times> nat \<Rightarrow> world \<Rightarrow> exn option \<times> (nat \<times> nat) \<times> world" where
  "organize_body lib dest_path opts file_path counts w =
     (let (pass, warnings) = apply_filters lib opts (disk w) file_path;
          w1 = w\<lparr>logged := logged w @ warnings\<rparr> in
      case pass of
        Inl e \<Rightarrow> (Some e, counts, w1)
      | Inr False \<Rightarrow> (None, counts, w1)
      | Inr True \<Rightarrow>
        let files_processed = fst counts + 1;
            files_moved = snd counts;
            file_category = get_category lib (file_types w1) (path_suffix (path_name file_path));
            target_dir = target_dir_of lib w1 dest_path file_path in
        (case target_file_of lib w1 dest_path file_path of
           Inl e \<Rightarrow> (Some e, (files_processed, files_moved), w1)
         | Inr target_file \<Rightarrow>
            if dry_run opts
            then (None, (files_processed, files_moved),
                  w1\<lparr>printed := printed w1 @
                    [Print_DryRun (if copy_files opts then ''copy'' else ''move'') file_path
                       target_file]\<rparr>)
            else
              (case mkdir_parents (disk w1) target_dir of
                 Inl e \<Rightarrow> (Some e, (files_processed, files_moved), w1)
               | Inr fs1 \<Rightarrow>
                   (case (if copy_files opts then shutil_copy2 fs1 file_path target_file
                          else shutil_move fs1 file_path target_file) of
                      Inl e \<Rightarrow> (Some e, (files_processed, files_moved), w1\<lparr>disk := fs1\<rparr>)
                    | Inr fs2 \<Rightarrow>
                        (None, (files_processed, files_moved + 1),
                         w1\<lparr>disk := fs2,
                            operations_log := operations_log w1 @
                              [\<lparr>e_operation = (if copy_files opts then ''copy'' else ''move''),
                                e_source = file_path, e_destination = target_file,
                                e_category = file_category\<rparr>],
                            printed := printed w1 @
                              [Print_Done (if copy_files opts then ''Copied'' else ''Moved'')
                                 (path_name file_path) file_category]\<rparr>)))))"

text \<open>
  One iteration: the body under \<open>except Exception as e\<close>, whose handler logs the error.
\<close>

definition organize_step ::
  "library \<Rightarrow> path \<Rightarrow> options \<Rightarrow> path \<Rightarrow> nat \<times> nat \<Rightarrow> world \<Rightarrow> (exn + nat \<times> nat) \<times> world" where
  "organize_step lib dest_path opts file_path counts w =
     (case organize_body lib dest_path opts file_path counts w of
        (None, counts', w') \<Rightarrow> (Inr counts', w')
      | (Some e, counts', w') \<Rightarrow>
          (case except_match [Cls_Exception] e of
             Inl raised \<Rightarrow> (Inl raised, w')
           | Inr False \<Rightarrow> (Inl e, w')
           | Inr True \<Rightarrow>
               (Inr counts', w'\<lparr>logged := logged w' @ [Log_Error_Processing file_path e]\<rparr>)))"

fun organize_loop ::
  "library \<Rightarrow> path \<Rightarrow> options \<Rightarrow> path list \<Rightarrow> nat \<times> nat \<Rightarrow> world \<Rightarrow> (exn + nat \<times> nat) \<times> world" where
  "organize_loop lib dest_path opts [] counts w = (Inr counts, w)"
| "organize_loop lib dest_path opts (file_path # files) counts w =
     (case organize_step lib dest_path opts file_path counts w of
        (Inl e, w') \<Rightarrow> (Inl e, w')
      | (Inr counts', w') \<Rightarrow> organize_loop lib dest_path opts files counts' w')"

text \<open>The files the run considers: the regular files of the listing, taken before the loop.\<close>

definition candidate_files :: "fs \<Rightarrow> path \<Rightarrow> bool \<Rightarrow> path list" where
  "candidate_files fs src_path rec =
     (if rec then [f \<leftarrow> rglob_all fs src_path. is_file fs f]
      else [f \<leftarrow> iterdir fs src_path. is_file fs f])"

text \<open>
  \<open>organize_files\<close>. It returns the raised exception or the pair \<open>(files_processed,
  files_moved)\<close>, and the world it leaves.
\<close>

definition organize_files ::
  "library \<Rightarrow> path \<Rightarrow> path \<Rightarrow> options \<Rightarrow> world \<Rightarrow> (exn + nat \<times> nat) \<times> world" where
  "organize_files lib src_path dest_path opts w =
     (if \<not> path_exists (disk w) src_path then (Inl FileNotFoundError, w)
      else if \<not> is_dir (disk w) src_path then (Inl NotADirectoryError, w)
      else organize_loop lib dest_path opts
             (candidate_files (disk w) src_path (recursive opts)) (0, 0) w)"

subsection \<open>The undo log\<close>

text \<open>
  An operation as it is read back from the log file: a JSON object in which each of the
  keys that \<open>undo_operations\<close> reads may be missing.
\<close>

record logged_operation =
  l_source :: "path option"
  l_destination :: "path option"
  l_operation :: "string option"

text \<open>
  An element of the value under the key \<open>operations\<close>: a JSON object, or any other JSON
  value (a number, a string, a list, \<open>null\<close>), on which the subscription
  \<open>operation['source']\<close> raises \<open>TypeError\<close>.
\<close>

datatype element =
    Operation logged_operation
  | Not_An_Object

text \<open>
  The value under the key \<open>operations\<close>, as \<open>reversed\<close> and the loop see it: a sequence
  of elements, or a value that \<open>reversed\<close> rejects with \<open>TypeError\<close> (\<open>null\<close>, a number, a
  truth value). A JSON list is the sequence of its elements. A JSON string or a JSON
  object is accepted by \<open>reversed\<close> too, and yields its characters or its keys: it is a
  sequence of as many elements that are not objects.
\<close>

datatype operations_value =
    Operations "element list"
  | Not_Reversible

text \<open>
  What \<open>open\<close> and \<open>json.load\<close> give for the log file. \<open>Log_Raises e\<close>: one of them raises
  \<open>e\<close>, which is \<open>FileNotFoundError\<close> for a path with no file, another \<open>OSError\<close> for a
  file that cannot be opened (\<open>IsADirectoryError\<close>, \<open>PermissionError\<close>),
  \<open>UnicodeDecodeError\<close> for bytes that are not UTF-8 and \<open>JSONDecodeError\<close> for text that
  is not JSON. \<open>Log_Not_An_Object\<close>: the text is a JSON value other than an object (a
  list, a string, a number, \<open>null\<close>), which has no method \<open>get\<close>. \<open>Log_Document v\<close>: a
  JSON object, \<open>v\<close> being the value under the key \<open>operations\<close> if there is one.
\<close>

datatype log_file =
    Log_Raises exn
  | Log_Not_An_Object
  | Log_Document "operations_value option"

definition dump_entry :: "ledger_entry \<Rightarrow> logged_operation" where
  "dump_entry e =
     \<lparr>l_source = Some (e_source e), l_destination = Some (e_destination e),
      l_operation = Some (e_operation e)\<rparr>"

text \<open>
  \<open>save_undo_log\<close>, as the log file it leaves at a path where there was none: nothing is
  written when the log is empty; otherwise the file holds the operations in the order
  of the log. The log file is kept apart from the modelled file system.
\<close>

definition save_undo_log :: "world \<Rightarrow> log_file" where
  "save_undo_log w =
     (if operations_log w = [] then Log_Raises FileNotFoundError
      else Log_Document (Some (Operations (map (\<lambda>e. Operation (dump_entry e)) (operations_log w)))))"

text \<open>
  The inner \<open>try\<close> of \<open>undo_operations\<close> for one operation when \<open>dry_run\<close> is false: the
  exception that leaves it, if any, the count and the world at that point.
\<close>

definition undo_body :: "path \<Rightarrow> path \<Rightarrow> string \<Rightarrow> nat \<Rightarrow> world \<Rightarrow> exn option \<times> nat \<times> world" where
  "undo_body src dst op_type undone_count w =
     (if op_type = ''move'' \<and> path_exists (disk w) dst then
        (case mkdir_parents (disk w) (path_parent src) of
           Inl e \<Rightarrow> (Some e, undone_count, w)
         | Inr fs1 \<Rightarrow>
             (case shutil_move fs1 dst src of
                Inl e \<Rightarrow> (Some e, undone_count, w\<lparr>disk := fs1\<rparr>)
              | Inr fs2 \<Rightarrow>
                  (None, undone_count + 1,
                   w\<lparr>disk := fs2,
                     printed := printed w @ [Print_Undone (path_name dst) (path_parent src)]\<rparr>)))
      else if op_type = ''copy'' \<and> path_exists (disk w) dst then
        (case unlink (disk w) dst of
           Inl e \<Rightarrow> (Some e, undone_count, w)
         | Inr fs1 \<Rightarrow>
             (None, undone_count + 1,
              w\<lparr>disk := fs1, printed := printed w @ [Print_RemovedCopy dst]\<rparr>))
      else (None, undone_count, w))"

text \<open>
  One iteration of the loop of \<open>undo_operations\<close> on an object: the three subscriptions
  raise \<open>KeyError\<close> outside the inner \<open>try\<close>; the inner handler is \<open>except Exception\<close>.
\<close>

definition undo_step :: "bool \<Rightarrow> logged_operation \<Rightarrow> nat \<Rightarrow> world \<Rightarrow> (exn + nat) \<times> world" where
  "undo_step dry operation undone_count w =
     (case (l_source operation, l_destination operation, l_operation operation) of
        (Some src, Some dst, Some op_type) \<Rightarrow>
          if dry then (Inr undone_count, w\<lparr>printed := printed w @ [Print_UndoDryRun dst src]\<rparr>)
          else
            (case undo_body src dst op_type undone_count w of
               (None, n, w') \<Rightarrow> (Inr n, w')
             | (Some e, n, w') \<Rightarrow>
                 (case except_match [Cls_Exception] e of
                    Inl raised \<Rightarrow> (Inl raised, w')
                  | Inr False \<Rightarrow> (Inl e, w')
                  | Inr True \<Rightarrow> (Inr n, w'\<lparr>logged := logged w' @ [Log_Error_Undoing e]\<rparr>)))
      | _ \<Rightarrow> (Inl KeyError, w))"

text \<open>
  One iteration on any element: the first subscription raises \<open>TypeError\<close> on an element
  that is not an object, outside the inner \<open>try\<close>.
\<close>

definition undo_element :: "bool \<Rightarrow> element \<Rightarrow> nat \<Rightarrow> world \<Rightarrow> (exn + nat) \<times> world" where
  "undo_element dry el undone_count w =
     (case el of
        Operation operation \<Rightarrow> undo_step dry operation undone_count w
      | Not_An_Object \<Rightarrow> (Inl TypeError, w))"

fun undo_loop :: "bool \<Rightarrow> element list \<Rightarrow> nat \<Rightarrow> world \<Rightarrow> (exn + nat) \<times> world" where
  "undo_loop dry [] undone_count w = (Inr undone_count, w)"
| "undo_loop dry (operation # operations) undone_count w =
     (case undo_element dry operation undone_count w of
        (Inl e, w') \<Rightarrow> (Inl e, w')
      | (Inr n, w') \<Rightarrow> undo_loop dry operations n w')"

text \<open>
  The body of the outer \<open>try\<close> of \<open>undo_operations\<close>: \<open>log_data.get('operations', [])\<close>
  raises \<open>AttributeError\<close> on a value that is not an object, \<open>reversed(operations)\<close>
  raises \<open>TypeError\<close> on a value that is not a sequence, and the loop runs over the
  elements, last first.
\<close>

definition undo_try :: "log_file \<Rightarrow> bool \<Rightarrow> world \<Rightarrow> (exn + nat) \<times> world" where
  "undo_try log dry w =
     (case log of
        Log_Raises e \<Rightarrow> (Inl e, w)
      | Log_Not_An_Object \<Rightarrow> (Inl AttributeError, w)
      | Log_Document v \<Rightarrow>
          (case (case v of None \<Rightarrow> Operations [] | Some operations \<Rightarrow> operations) of
             Not_Reversible \<Rightarrow> (Inl TypeError, w)
           | Operations operations \<Rightarrow> undo_loop dry (rev operations) 0 w))"

text \<open>
  \<open>undo_operations\<close>: the outer \<open>try\<close> with its handler \<open>except (FileNotFoundError,
  json.JSONDecodeError, KeyError)\<close>, which logs the error and returns \<open>0\<close>; any other
  exception leaves the function.
\<close>

definition undo_operations :: "log_file \<Rightarrow> bool \<Rightarrow> world \<Rightarrow> (exn + nat) \<times> world" where
  "undo_operations log dry w =
     (case undo_try log dry w of
        (Inr undone_count, w') \<Rightarrow> (Inr undone_count, w')
      | (Inl e, w') \<Rightarrow>
          (case except_match [Cls_FileNotFoundError, Cls_JSONDecodeError, Cls_KeyError] e of
             Inl raised \<Rightarrow> (Inl raised, w')
           | Inr False \<Rightarrow> (Inl e, w')
           | Inr True \<Rightarrow> (Inr 0, w'\<lparr>logged := logged w' @ [Log_Error_ReadingUndoLog e]\<rparr>)))"

subsection \<open>Loading the configuration\<close>

text \<open>
  What \<open>load_config\<close> meets: no file at the path, a file whose opening or parsing raises
  (\<open>IOError\<close> and its subclasses for an unreadable file, \<open>JSONDecodeError\<close> for text that
  is not JSON), or a table.
\<close>

datatype config_file =
    Config_Absent
  | Config_Raises exn
  | Config_Loaded file_types

text \<open>
  \<open>load_config\<close>; its handler is written \<open>except (json.JSONDecoder, IOError)\<close>.
\<close>

definition load_config :: "config_file \<Rightarrow> world \<Rightarrow> (exn + bool) \<times> world" where
  "load_config config w =
     (case config of
        Config_Absent \<Rightarrow> (Inr False, w\<lparr>logged := logged w @ [Log_Warning_ConfigNotFound]\<rparr>)
      | Config_Loaded table \<Rightarrow> (Inr True, w\<lparr>file_types := table\<rparr>)
      | Config_Raises e \<Rightarrow>
          (case except_match [Cls_JSONDecoder, Cls_IOError] e of
             Inl raised \<Rightarrow> (Inl raised, w)
           | Inr False \<Rightarrow> (Inl e, w)
           | Inr True \<Rightarrow> (Inr False, w\<lparr>logged := logged w @ [Log_Error_LoadingConfig e]\<rparr>)))"

text \<open>The organizer as \<open>FileOrganizer()\<close> builds it, on a given file system.\<close>

definition new_organizer :: "fs \<Rightarrow> world" where
  "new_organizer fs =
     \<lparr>file_types = DEFAULT_FILE_TYPES, operations_log = [], disk = fs, printed = [], logged = []\<rparr>"

section \<open>States and logs used as examples\<close>

text \<open>
  A library for the examples, whose strings are ASCII: \<open>str.lower()\<close> as it is on such
  strings, and a regular expression engine that rejects the pattern \<open>[\<close>, overflows on
  the pattern \<open>a{4294967296}\<close> and finds no match for any other pattern.
\<close>

definition example_library :: library where
  "example_library =
     \<lparr>str_lower = ascii_lower,
      re_search = (\<lambda>pat s. if pat = ''['' then Inl ReError
                            else if pat = ''a{4294967296}'' then Inl OverflowError
                            else Inr False)\<rparr>"

text \<open>
  A library that lowers the capital E with an acute accent as well, the bytes \<open>C3 89\<close>
  going to \<open>C3 A9\<close>, in the one string where the examples have it.
\<close>

definition E_acute :: string where
  "E_acute = [CHR 0xC3, CHR 0x89]"

definition e_acute :: string where
  "e_acute = [CHR 0xC3, CHR 0xA9]"

definition accent_library :: library where
  "accent_library =
     \<lparr>str_lower = (\<lambda>s. if s = ''.'' @ E_acute then ''.'' @ e_acute else ascii_lower s),
      re_search = (\<lambda>pat s. Inr False)\<rparr>"

text \<open>A destination directory holding \<open>a.txt\<close>, and the same with \<open>a_1.txt\<close> beside it.\<close>

definition fs_one :: fs where
  "fs_one = [([''dest''], Dir), ([''dest'', ''a.txt''], File ''x'')]"

definition fs_two :: fs where
  "fs_two = [([''dest'', ''a_1.txt''], File ''y''), ([''dest''], Dir), ([''dest'', ''a.txt''], File ''x'')]"

text \<open>
  A destination directory holding a file whose name has 254 bytes: 250 letters and the
  suffix \<open>.txt\<close>. The name of its first numbered candidate has 256 bytes.
\<close>

definition long_name :: string where
  "long_name = replicate 250 CHR ''a'' @ ''.txt''"

definition fs_long :: fs where
  "fs_long = [([''dest''], Dir), ([''dest'', long_name], File ''x'')]"

text \<open>A home directory with one text file.\<close>

definition fs_plain :: fs where
  "fs_plain = [([''home''], Dir), ([''home'', ''notes.txt''], File ''hello'')]"





text \<open>
  A directory organized into itself: it holds a regular file named \<open>Images\<close> (no
  extension, so its category is \<open>Other\<close>) and \<open>x.jpg\<close>, listed in this order.
\<close>

definition fs_inplace :: fs where
  "fs_inplace =
     [([''d''], Dir), ([''d'', ''Images''], File ''raw''), ([''d'', ''x.jpg''], File ''jpeg'')]"

definition inplace_organized :: "(exn + nat \<times> nat) \<times> world" where
  "inplace_organized =
     organize_files example_library [''d''] [''d''] default_options (new_organizer fs_inplace)"

definition inplace_undone :: "(exn + nat) \<times> world" where
  "inplace_undone =
     undo_operations (save_undo_log (snd inplace_organized)) False
       (new_organizer (disk (snd inplace_organized)))"






text \<open>
  The actions a dry run reports, read off the output, and the transfers a run executes,
  read off the operations log: pairs of the file and its target.
\<close>

fun dry_run_action :: "line \<Rightarrow> (path \<times> path) list" where
  "dry_run_action (Print_DryRun action file_path target_file) = [(file_path, target_file)]"
| "dry_run_action other = []"

definition reported_actions :: "world \<Rightarrow> (path \<times> path) list" where
  "reported_actions w = concat (map dry_run_action (printed w))"

definition executed_actions :: "world \<Rightarrow> (path \<times> path) list" where
  "executed_actions w = map (\<lambda>e. (e_source e, e_destination e)) (operations_log w)"

text \<open>
  Two files of the same name in two subdirectories, organized recursively.
\<close>

definition fs_twins :: fs where
  "fs_twins =
     [([''s''], Dir), ([''s'', ''a''], Dir), ([''s'', ''b''], Dir),
      ([''s'', ''a'', ''x.jpg''], File ''one''), ([''s'', ''b'', ''x.jpg''], File ''two'')]"


text \<open>
  The ledger of the recursive run on the two files named \<open>x.jpg\<close>, undone on the file
  system that run leaves: the record appended last is undone first and both files are
  back at their sources.
\<close>

definition fs_twins_moved :: fs where
  "fs_twins_moved =
     [([''s''], Dir), ([''s'', ''a''], Dir), ([''s'', ''b''], Dir), ([''o''], Dir),
      ([''o'', ''Images''], Dir), ([''o'', ''Images'', ''x.jpg''], File ''one''),
      ([''o'', ''Images'', ''x_1.jpg''], File ''two'')]"



section \<open>Properties\<close>

subsection \<open>Properties of the file system operations\<close>

lemma node_at_append:
  "node_at (fs @ [(q, n)]) p =
     (if path_exists fs p then node_at fs p else if p = q then Some n else None)"
  by (auto simp: node_at_def path_exists_def map_add_def split: option.splits)

lemma node_at_update:
  "node_at (AList.update k v fs) p = (if p = [] then Some Dir else if p = k then Some v else node_at fs p)"
  by (simp add: node_at_def update_conv')

lemma node_at_delete:
  "node_at (AList.delete k fs) p = (if p = [] then Some Dir else if p = k then None else node_at fs p)"
  by (simp add: node_at_def delete_conv')

lemma mkdir_walk_preserves:
  "mkdir_walk fs cur cs = Inr fs' \<Longrightarrow> path_exists fs p \<Longrightarrow> node_at fs' p = node_at fs p"
proof (induction cs arbitrary: fs cur)
  case Nil
  then show ?case by simp
next
  case (Cons c cs)
  show ?case
  proof (cases "node_at fs (cur @ [c])")
    case None
    with Cons.prems(1) have w: "mkdir_walk (fs @ [(cur @ [c], Dir)]) (cur @ [c]) cs = Inr fs'"
      by simp
    from Cons.prems(2) have e: "path_exists (fs @ [(cur @ [c], Dir)]) p"
      by (simp add: path_exists_def node_at_append)
    from Cons.IH [OF w e] Cons.prems(2) show ?thesis
      by (simp add: node_at_append)
  next
    case (Some n)
    show ?thesis
    proof (cases n)
      case (File x)
      with Some Cons.prems(1) show ?thesis by simp
    next
      case Dir
      with Some Cons.prems(1) have "mkdir_walk fs (cur @ [c]) cs = Inr fs'" by simp
      from Cons.IH [OF this Cons.prems(2)] show ?thesis .
    qed
  qed
qed

lemma mkdir_walk_new:
  "mkdir_walk fs cur cs = Inr fs' \<Longrightarrow> \<not> path_exists fs p \<Longrightarrow>
   node_at fs' p = None \<or> (node_at fs' p = Some Dir \<and> (\<exists>k. 0 < k \<and> k \<le> length cs \<and> p = cur @ take k cs))"
proof (induction cs arbitrary: fs cur)
  case Nil
  then show ?case by (simp add: path_exists_def)
next
  case (Cons c cs)
  show ?case
  proof (cases "node_at fs (cur @ [c])")
    case None
    with Cons.prems(1) have w: "mkdir_walk (fs @ [(cur @ [c], Dir)]) (cur @ [c]) cs = Inr fs'"
      by simp
    show ?thesis
    proof (cases "p = cur @ [c]")
      case True
      then have "path_exists (fs @ [(cur @ [c], Dir)]) p"
        using Cons.prems(2) by (simp add: path_exists_def node_at_append)
      from mkdir_walk_preserves [OF w this] True Cons.prems(2)
      have "node_at fs' p = Some Dir"
        by (simp add: node_at_append)
      moreover have "0 < (1::nat) \<and> 1 \<le> length (c # cs) \<and> p = cur @ take 1 (c # cs)"
        using True by simp
      ultimately show ?thesis by blast
    next
      case False
      with Cons.prems(2) have "\<not> path_exists (fs @ [(cur @ [c], Dir)]) p"
        by (simp add: path_exists_def node_at_append)
      from Cons.IH [OF w this] show ?thesis
      proof
        assume "node_at fs' p = None"
        then show ?thesis by simp
      next
        assume "node_at fs' p = Some Dir \<and> (\<exists>k. 0 < k \<and> k \<le> length cs \<and> p = (cur @ [c]) @ take k cs)"
        then obtain k where k: "node_at fs' p = Some Dir" "k \<le> length cs" "p = (cur @ [c]) @ take k cs"
          by blast
        then have "0 < Suc k \<and> Suc k \<le> length (c # cs) \<and> p = cur @ take (Suc k) (c # cs)"
          by simp
        with k(1) show ?thesis by blast
      qed
    qed
  next
    case (Some n)
    show ?thesis
    proof (cases n)
      case (File x)
      with Some Cons.prems(1) show ?thesis by simp
    next
      case Dir
      with Some Cons.prems(1) have w: "mkdir_walk fs (cur @ [c]) cs = Inr fs'" by simp
      from Cons.IH [OF w Cons.prems(2)] show ?thesis
      proof
        assume "node_at fs' p = None"
        then show ?thesis by simp
      next
        assume "node_at fs' p = Some Dir \<and> (\<exists>k. 0 < k \<and> k \<le> length cs \<and> p = (cur @ [c]) @ take k cs)"
        then obtain k where k: "node_at fs' p = Some Dir" "k \<le> length cs" "p = (cur @ [c]) @ take k cs"
          by blast
        then have "0 < Suc k \<and> Suc k \<le> length (c # cs) \<and> p = cur @ take (Suc k) (c # cs)"
          by simp
        with k(1) show ?thesis by blast
      qed
    qed
  qed
qed

lemma mkdir_walk_is_dir:
  "mkdir_walk fs cur cs = Inr fs' \<Longrightarrow> is_dir fs cur \<Longrightarrow> is_dir fs' (cur @ cs)"
proof (induction cs arbitrary: fs cur)
  case Nil
  then show ?case by simp
next
  case (Cons c cs)
  show ?case
  proof (cases "node_at fs (cur @ [c])")
    case None
    with Cons.prems(1) have w: "mkdir_walk (fs @ [(cur @ [c], Dir)]) (cur @ [c]) cs = Inr fs'"
      by simp
    from None have "is_dir (fs @ [(cur @ [c], Dir)]) (cur @ [c])"
      by (simp add: is_dir_def node_at_append path_exists_def)
    from Cons.IH [OF w this] show ?thesis by simp
  next
    case (Some n)
    show ?thesis
    proof (cases n)
      case (File x)
      with Some Cons.prems(1) show ?thesis by simp
    next
      case Dir
      with Some Cons.prems(1) have w: "mkdir_walk fs (cur @ [c]) cs = Inr fs'" by simp
      from Some Dir have "is_dir fs (cur @ [c])" by (simp add: is_dir_def)
      from Cons.IH [OF w this] show ?thesis by simp
    qed
  qed
qed

lemma mkdir_parents_preserves:
  "mkdir_parents fs d = Inr fs' \<Longrightarrow> path_exists fs p \<Longrightarrow> node_at fs' p = node_at fs p"
  unfolding mkdir_parents_def by (rule mkdir_walk_preserves)

lemma mkdir_parents_is_dir:
  "mkdir_parents fs d = Inr fs' \<Longrightarrow> is_dir fs' d"
  unfolding mkdir_parents_def
  using mkdir_walk_is_dir [of fs "[]" d fs'] by (simp add: is_dir_def node_at_def)

lemma mkdir_parents_new:
  "mkdir_parents fs d = Inr fs' \<Longrightarrow> \<not> path_exists fs p \<Longrightarrow>
   node_at fs' p = None \<or> (node_at fs' p = Some Dir \<and> (\<exists>k. 0 < k \<and> k \<le> length d \<and> p = take k d))"
  unfolding mkdir_parents_def
  using mkdir_walk_new [of fs "[]" d fs' p] by simp

lemma node_at_root: "node_at fs [] = Some Dir"
  by (simp add: node_at_def)

subsection \<open>Properties of the category resolver\<close>

lemma get_category_cases:
  "(\<exists>pre category extensions post.
       table = pre @ (category, extensions) # post
     \<and> (\<forall>(c, es) \<in> set pre. str_lower lib ext \<notin> set (map (str_lower lib) es))
     \<and> str_lower lib ext \<in> set (map (str_lower lib) extensions)
     \<and> get_category lib table ext = category)
   \<or> ((\<forall>(c, es) \<in> set table. str_lower lib ext \<notin> set (map (str_lower lib) es))
     \<and> get_category lib table ext = ''Other'')"
proof (induction table)
  case Nil
  then show ?case by simp
next
  case (Cons entry table)
  obtain category extensions where entry: "entry = (category, extensions)"
    by (cases entry)
  show ?case
  proof (cases "str_lower lib ext \<in> set (map (str_lower lib) extensions)")
    case True
    have "entry # table = [] @ (category, extensions) # table
        \<and> (\<forall>(c, es) \<in> set []. str_lower lib ext \<notin> set (map (str_lower lib) es))
        \<and> str_lower lib ext \<in> set (map (str_lower lib) extensions)
        \<and> get_category lib (entry # table) ext = category"
      using True by (simp add: entry)
    then show ?thesis
      by (intro disjI1 exI)
  next
    case False
    from Cons.IH show ?thesis
    proof (elim disjE exE conjE)
      fix pre c es post
      assume h: "table = pre @ (c, es) # post"
        "\<forall>(c, es) \<in> set pre. str_lower lib ext \<notin> set (map (str_lower lib) es)"
        "str_lower lib ext \<in> set (map (str_lower lib) es)" "get_category lib table ext = c"
      have "entry # table = (entry # pre) @ (c, es) # post
        \<and> (\<forall>(c, es) \<in> set (entry # pre). str_lower lib ext \<notin> set (map (str_lower lib) es))
        \<and> str_lower lib ext \<in> set (map (str_lower lib) es)
        \<and> get_category lib (entry # table) ext = c"
        using h False by (simp add: entry)
      then show ?thesis
        by (intro disjI1 exI)
    next
      assume "\<forall>(c, es) \<in> set table. str_lower lib ext \<notin> set (map (str_lower lib) es)"
        and "get_category lib table ext = ''Other''"
      then have "(\<forall>(c, es) \<in> set (entry # table). str_lower lib ext \<notin> set (map (str_lower lib) es))
        \<and> get_category lib (entry # table) ext = ''Other''"
        using False by (simp add: entry)
      then show ?thesis
        by (rule disjI2)
    qed
  qed
qed

lemma get_category_lower_eq:
  "str_lower lib a = str_lower lib b \<Longrightarrow> get_category lib table a = get_category lib table b"
proof (induction table)
  case Nil
  show ?case by simp
next
  case (Cons entry table)
  obtain category extensions where entry: "entry = (category, extensions)"
    by (cases entry)
  from Cons show ?case unfolding entry by (simp only: get_category.simps)
qed

text \<open>
  Claim C4. \<open>get_category\<close> is a total function of the table and the extension alone (it
  reads and returns values only), whatever \<open>str.lower()\<close> does to the strings it is
  given. For every extension it returns the first category, in the order of the table,
  one of whose extensions equals the input once both are lowered, and \<open>Other\<close> when no
  category has such an extension; where the table's extensions are lower case, as the
  data model has them, that is the first category whose extensions contain the
  lowered input. Two inputs with the same lowered form resolve to the same category;
  since \<open>str.lower()\<close> is \<open>ascii_lower\<close> on ASCII strings, two ASCII inputs that differ
  only in the case of their letters do.
\<close>

theorem get_category_first_match:
  "((\<exists>pre category extensions post.
       table = pre @ (category, extensions) # post
     \<and> (\<forall>(c, es) \<in> set pre. str_lower lib ext \<notin> set (map (str_lower lib) es))
     \<and> str_lower lib ext \<in> set (map (str_lower lib) extensions)
     \<and> get_category lib table ext = category)
   \<or> ((\<forall>(c, es) \<in> set table. str_lower lib ext \<notin> set (map (str_lower lib) es))
     \<and> get_category lib table ext = ''Other''))
   \<and> ((\<forall>(c, es) \<in> set table. \<forall>e \<in> set es. str_lower lib e = e) \<longrightarrow>
        (\<forall>(c, es) \<in> set table.
           (str_lower lib ext \<in> set (map (str_lower lib) es)) = (str_lower lib ext \<in> set es)))
   \<and> (str_lower lib a = str_lower lib b \<longrightarrow> get_category lib table a = get_category lib table b)
   \<and> ((\<forall>s. is_ascii s \<longrightarrow> str_lower lib s = ascii_lower s)
        \<and> is_ascii a \<and> is_ascii b \<and> ascii_lower a = ascii_lower b \<longrightarrow>
        get_category lib table a = get_category lib table b)"
proof (intro conjI)
  show "(\<exists>pre category extensions post.
       table = pre @ (category, extensions) # post
     \<and> (\<forall>(c, es) \<in> set pre. str_lower lib ext \<notin> set (map (str_lower lib) es))
     \<and> str_lower lib ext \<in> set (map (str_lower lib) extensions)
     \<and> get_category lib table ext = category)
   \<or> ((\<forall>(c, es) \<in> set table. str_lower lib ext \<notin> set (map (str_lower lib) es))
     \<and> get_category lib table ext = ''Other'')"
    by (rule get_category_cases)
next
  show "(\<forall>(c, es) \<in> set table. \<forall>e \<in> set es. str_lower lib e = e) \<longrightarrow>
        (\<forall>(c, es) \<in> set table.
           (str_lower lib ext \<in> set (map (str_lower lib) es)) = (str_lower lib ext \<in> set es))"
  proof (intro impI ballI)
    fix entry
    assume low: "\<forall>(c, es) \<in> set table. \<forall>e \<in> set es. str_lower lib e = e"
      and mem: "entry \<in> set table"
    obtain c es where entry: "entry = (c, es)" by (cases entry)
    from low mem entry have "\<forall>e \<in> set es. str_lower lib e = e" by auto
    then have "map (str_lower lib) es = es" by (simp add: map_idI)
    then have "(str_lower lib ext \<in> set (map (str_lower lib) es)) = (str_lower lib ext \<in> set es)"
      by (rule arg_cong)
    then show "case entry of (c, es) \<Rightarrow>
        (str_lower lib ext \<in> set (map (str_lower lib) es)) = (str_lower lib ext \<in> set es)"
      unfolding entry by (simp only: prod.case)
  qed
next
  show "str_lower lib a = str_lower lib b \<longrightarrow> get_category lib table a = get_category lib table b"
    by (rule impI) (rule get_category_lower_eq)
next
  show "(\<forall>s. is_ascii s \<longrightarrow> str_lower lib s = ascii_lower s)
        \<and> is_ascii a \<and> is_ascii b \<and> ascii_lower a = ascii_lower b \<longrightarrow>
        get_category lib table a = get_category lib table b"
  proof
    assume h: "(\<forall>s. is_ascii s \<longrightarrow> str_lower lib s = ascii_lower s)
        \<and> is_ascii a \<and> is_ascii b \<and> ascii_lower a = ascii_lower b"
    then have "str_lower lib a = ascii_lower a" and "str_lower lib b = ascii_lower b"
      by simp_all
    with h have "str_lower lib a = str_lower lib b" by simp
    then show "get_category lib table a = get_category lib table b"
      by (rule get_category_lower_eq)
  qed
qed

theorem get_category_first_match_witness:
  "is_ascii ''.JPG'' \<and> is_ascii ''.jpg'' \<and> ascii_lower ''.JPG'' = ascii_lower ''.jpg''
   \<and> get_category example_library DEFAULT_FILE_TYPES ''.JPG''
       = get_category example_library DEFAULT_FILE_TYPES ''.jpg''
   \<and> get_category example_library DEFAULT_FILE_TYPES ''.jpg'' = ''Images''
   \<and> get_category example_library DEFAULT_FILE_TYPES ''.xyz'' = ''Other''
   \<and> list_all (\<lambda>(c, es). list_all (\<lambda>e. str_lower example_library e = e) es) DEFAULT_FILE_TYPES
   \<and> list_all (\<lambda>(c, es). (str_lower example_library ''.JPG'' \<in> set (map (str_lower example_library) es))
                          = (str_lower example_library ''.JPG'' \<in> set es))
        DEFAULT_FILE_TYPES
   \<and> str_lower accent_library (''.'' @ E_acute) = str_lower accent_library (''.'' @ e_acute)
   \<and> get_category accent_library [(''Accent'', [''.'' @ e_acute])] (''.'' @ E_acute) = ''Accent''"
proof -
  have agree: "\<forall>s. is_ascii s \<longrightarrow> str_lower example_library s = ascii_lower s"
    by (simp add: example_library_def)
  have asc: "is_ascii ''.JPG''" "is_ascii ''.jpg''"
    by code_simp+
  have l: "ascii_lower ''.JPG'' = ascii_lower ''.jpg''"
    by code_simp
  have low: "list_all (\<lambda>(c, es). list_all (\<lambda>e. str_lower example_library e = e) es) DEFAULT_FILE_TYPES"
    by code_simp
  then have low': "\<forall>(c, es) \<in> set DEFAULT_FILE_TYPES. \<forall>e \<in> set es. str_lower example_library e = e"
    by (simp add: list_all_iff case_prod_beta)
  have j: "get_category example_library DEFAULT_FILE_TYPES ''.jpg'' = ''Images''"
    by code_simp
  have x: "get_category example_library DEFAULT_FILE_TYPES ''.xyz'' = ''Other''"
    by code_simp
  have acc: "str_lower accent_library (''.'' @ E_acute) = str_lower accent_library (''.'' @ e_acute)"
    by code_simp
  note t = get_category_first_match [of DEFAULT_FILE_TYPES example_library "''.JPG''" "''.JPG''" "''.jpg''"]
  from t [THEN conjunct2, THEN conjunct2, THEN conjunct2] agree asc l
  have same: "get_category example_library DEFAULT_FILE_TYPES ''.JPG''
       = get_category example_library DEFAULT_FILE_TYPES ''.jpg''"
    by simp
  from t [THEN conjunct2, THEN conjunct1] low'
  have mem: "\<forall>(c, es) \<in> set DEFAULT_FILE_TYPES.
        (str_lower example_library ''.JPG'' \<in> set (map (str_lower example_library) es))
          = (str_lower example_library ''.JPG'' \<in> set es)"
    by (rule mp)
  from get_category_first_match [of "[(''Accent'', [''.'' @ e_acute])]" accent_library
      "''.'' @ E_acute" "''.'' @ E_acute" "''.'' @ e_acute", THEN conjunct2, THEN conjunct2,
      THEN conjunct1] acc
  have "get_category accent_library [(''Accent'', [''.'' @ e_acute])] (''.'' @ E_acute)
      = get_category accent_library [(''Accent'', [''.'' @ e_acute])] (''.'' @ e_acute)"
    by (rule mp)
  moreover have "get_category accent_library [(''Accent'', [''.'' @ e_acute])] (''.'' @ e_acute)
      = ''Accent''"
    by code_simp
  ultimately have accent:
    "get_category accent_library [(''Accent'', [''.'' @ e_acute])] (''.'' @ E_acute) = ''Accent''"
    by simp
  have mem': "list_all (\<lambda>(c, es). (str_lower example_library ''.JPG'' \<in> set (map (str_lower example_library) es))
                          = (str_lower example_library ''.JPG'' \<in> set es))
        DEFAULT_FILE_TYPES"
    using mem by (simp add: list_all_iff case_prod_beta)
  from asc l same j x low mem' acc accent show ?thesis
    by (intro conjI)
qed
subsection \<open>Properties of the collision-free namer\<close>

lemma try_exists_cases:
  "(try_exists fs p = Inr b) = (\<not> name_too_long p \<and> path_exists fs p = b)"
  "(try_exists fs p = Inl e) = (name_too_long p \<and> e = OSError)"
  by (auto simp: try_exists_def)

lemma get_unique_loop_least:
  "\<exists>N\<ge>counter.
      (\<forall>k. counter \<le> k \<and> k < N \<longrightarrow> try_exists fs (new_path p k) = Inr True)
    \<and> (try_exists fs (new_path p N) = Inr False
          \<and> get_unique_loop fs p counter = Inr (new_path p N)
        \<or> (\<exists>e. try_exists fs (new_path p N) = Inl e \<and> get_unique_loop fs p counter = Inl e))"
proof (induction fs p counter rule: get_unique_loop.induct)
  case (1 fs p counter)
  show ?case
  proof (cases "try_exists fs (new_path p counter)")
    case (Inl e)
    then have "get_unique_loop fs p counter = Inl e"
      by (subst get_unique_loop.simps) simp
    with Inl show ?thesis
      by (intro exI [of _ counter]) auto
  next
    case (Inr found)
    show ?thesis
    proof (cases found)
      case False
      with Inr have "get_unique_loop fs p counter = Inr (new_path p counter)"
        by (subst get_unique_loop.simps) simp
      with Inr False show ?thesis
        by (intro exI [of _ counter]) auto
    next
      case True
      with Inr have eq: "get_unique_loop fs p counter = get_unique_loop fs p (counter + 1)"
        by (subst get_unique_loop.simps) simp
      from "1.IH" [OF Inr] True obtain N where N: "counter + 1 \<le> N"
        "\<forall>k. counter + 1 \<le> k \<and> k < N \<longrightarrow> try_exists fs (new_path p k) = Inr True"
        "try_exists fs (new_path p N) = Inr False
            \<and> get_unique_loop fs p (counter + 1) = Inr (new_path p N)
         \<or> (\<exists>e. try_exists fs (new_path p N) = Inl e \<and> get_unique_loop fs p (counter + 1) = Inl e)"
        by auto
      have "\<forall>k. counter \<le> k \<and> k < N \<longrightarrow> try_exists fs (new_path p k) = Inr True"
      proof (intro allI impI)
        fix k assume k: "counter \<le> k \<and> k < N"
        show "try_exists fs (new_path p k) = Inr True"
        proof (cases "k = counter")
          case True
          with Inr \<open>found\<close> show ?thesis by simp
        next
          case False
          with k N(2) show ?thesis by simp
        qed
      qed
      with N(1,3) eq show ?thesis
        by (intro exI [of _ N]) simp
    qed
  qed
qed

lemma get_unique_loop_cong:
  assumes "\<forall>q. path_exists fs' q = path_exists fs q"
  shows "get_unique_loop fs' p counter = get_unique_loop fs p counter"
  using assms
proof (induction fs p counter rule: get_unique_loop.induct)
  case (1 fs p counter)
  from "1.prems" have same: "\<And>q. try_exists fs' q = try_exists fs q"
    by (simp add: try_exists_def)
  show ?case
  proof (cases "try_exists fs (new_path p counter)")
    case (Inl e)
    then show ?thesis
      by (subst get_unique_loop.simps, subst (2) get_unique_loop.simps) (simp add: same)
  next
    case (Inr found)
    show ?thesis
    proof (cases found)
      case False
      with Inr show ?thesis
        by (subst get_unique_loop.simps, subst (2) get_unique_loop.simps) (simp add: same)
    next
      case True
      from "1.IH" [OF Inr _ "1.prems"] True
      have "get_unique_loop fs' p (counter + 1) = get_unique_loop fs p (counter + 1)"
        by simp
      with Inr True show ?thesis
        by (subst get_unique_loop.simps, subst (2) get_unique_loop.simps) (simp add: same)
    qed
  qed
qed

lemma stem_suffix_length: "length (path_stem name) + length (path_suffix name) = length name"
  by (auto simp: path_stem_def path_suffix_def min_def split: option.splits)

lemma new_path_name_length:
  "length (last (new_path p counter)) \<ge> length (path_name p) + 2"
proof -
  have "length (str_nat counter) \<ge> 1"
    using str_nat_nonempty [of counter] by (cases "str_nat counter") simp_all
  moreover have "length (last (new_path p counter))
      = length (path_stem (path_name p)) + length (path_suffix (path_name p))
        + 1 + length (str_nat counter)"
    by (simp add: new_path_def)
  ultimately show ?thesis
    by (simp add: stem_suffix_length)
qed

lemma new_path_too_long:
  assumes "NAME_MAX < length (path_name p) + 2"
  shows "name_too_long (new_path p counter)"
proof -
  from assms new_path_name_length [of p counter]
  have "NAME_MAX < length (last (new_path p counter))" by simp
  moreover have "last (new_path p counter) \<in> set (new_path p counter)"
    by (simp add: new_path_def)
  ultimately show ?thesis
    unfolding name_too_long_def list_ex_iff by blast
qed

lemma get_unique_filename_free:
  assumes "get_unique_filename fs p = Inr t"
  shows "\<not> path_exists fs t" and "\<not> name_too_long t"
proof -
  have "try_exists fs t = Inr False"
  proof (cases "try_exists fs p")
    case (Inl e)
    with assms show ?thesis by (simp add: get_unique_filename_def)
  next
    case (Inr found)
    show ?thesis
    proof (cases found)
      case False
      with Inr assms show ?thesis by (simp add: get_unique_filename_def)
    next
      case True
      with Inr assms have "get_unique_loop fs p 1 = Inr t"
        by (simp add: get_unique_filename_def)
      with get_unique_loop_least [of 1 fs p] show ?thesis by auto
    qed
  qed
  then show "\<not> path_exists fs t" and "\<not> name_too_long t"
    by (simp_all add: try_exists_cases)
qed

lemma get_unique_filename_in_parent:
  assumes "get_unique_filename fs (d @ [name]) = Inr t"
  shows "\<exists>x. t = d @ [x]"
proof (cases "try_exists fs (d @ [name])")
  case (Inl e)
  with assms show ?thesis by (simp add: get_unique_filename_def)
next
  case (Inr found)
  show ?thesis
  proof (cases found)
    case False
    with Inr assms have "t = d @ [name]" by (simp add: get_unique_filename_def)
    then show ?thesis by blast
  next
    case True
    with Inr assms have "get_unique_loop fs (d @ [name]) 1 = Inr t"
      by (simp add: get_unique_filename_def)
    with get_unique_loop_least [of 1 fs "d @ [name]"]
    obtain N where "t = new_path (d @ [name]) N" by auto
    then show ?thesis
      by (simp add: new_path_def path_parent_def)
  qed
qed

text \<open>
  Claim C3 states that \<open>get_unique_filename\<close> returns a path for every target path and
  file system. On \<open>fs_long\<close> the target exists and its name has 254 bytes, so the name
  of the first candidate has 256: the existence test of the candidate raises \<open>OSError\<close>
  and \<open>get_unique_filename\<close> raises it, returning no path.
\<close>

theorem get_unique_filename_raises_for_long_name:
  "wf_fs fs_long
   \<and> length long_name = 254
   \<and> try_exists fs_long [''dest'', long_name] = Inr True
   \<and> length (last (new_path [''dest'', long_name] 1)) = 256
   \<and> get_unique_filename fs_long [''dest'', long_name] = Inl OSError"
  by code_simp

text \<open>
  Claim C3, amended. \<open>get_unique_filename\<close> returns the target path unchanged when its
  existence test answers that nothing exists at it, and raises what that test raises.
  When the target exists, the loop terminates (the function is total: its termination
  is proved from the finiteness of the file system): there is a least \<open>N \<ge> 1\<close> whose
  candidate \<open>parent/stem_N+suffix\<close> is not found to exist, every candidate with a smaller
  number exists, and the function returns that candidate when its test answers that it
  does not exist and raises the error of that test otherwise. A candidate's name is at
  least two bytes longer than the target's, so for an existing target whose name has
  more than \<open>NAME_MAX - 2\<close> bytes the function raises \<open>OSError\<close>. The result depends on the
  file system only through which paths exist, so two calls on states with the same
  existing paths give the same result.
\<close>

theorem get_unique_filename_least:
  "(try_exists fs p = Inr False \<longrightarrow> get_unique_filename fs p = Inr p)
   \<and> (try_exists fs p = Inl e \<longrightarrow> get_unique_filename fs p = Inl e)
   \<and> (try_exists fs p = Inr True \<longrightarrow>
        (\<exists>N\<ge>1. (\<forall>k. 1 \<le> k \<and> k < N \<longrightarrow> try_exists fs (new_path p k) = Inr True)
           \<and> (try_exists fs (new_path p N) = Inr False
                \<and> get_unique_filename fs p =
                    Inr (path_parent p @
                      [path_stem (path_name p) @ ''_'' @ str_nat N @ path_suffix (path_name p)])
              \<or> (\<exists>e'. try_exists fs (new_path p N) = Inl e'
                    \<and> get_unique_filename fs p = Inl e'))))
   \<and> (path_exists fs p \<and> \<not> name_too_long p \<and> NAME_MAX < length (path_name p) + 2 \<longrightarrow>
        get_unique_filename fs p = Inl OSError)
   \<and> ((\<forall>q. path_exists fs' q = path_exists fs q) \<longrightarrow>
        get_unique_filename fs' p = get_unique_filename fs p)"
proof (intro conjI impI)
  assume "try_exists fs p = Inr False"
  then show "get_unique_filename fs p = Inr p"
    by (simp add: get_unique_filename_def)
next
  assume "try_exists fs p = Inl e"
  then show "get_unique_filename fs p = Inl e"
    by (simp add: get_unique_filename_def)
next
  assume ex: "try_exists fs p = Inr True"
  then have g: "get_unique_filename fs p = get_unique_loop fs p 1"
    by (simp add: get_unique_filename_def)
  from get_unique_loop_least [of 1 fs p]
  obtain N where N: "1 \<le> N"
    "\<forall>k. 1 \<le> k \<and> k < N \<longrightarrow> try_exists fs (new_path p k) = Inr True"
    "try_exists fs (new_path p N) = Inr False \<and> get_unique_loop fs p 1 = Inr (new_path p N)
     \<or> (\<exists>e. try_exists fs (new_path p N) = Inl e \<and> get_unique_loop fs p 1 = Inl e)"
    by blast
  from N(3) have "try_exists fs (new_path p N) = Inr False
        \<and> get_unique_filename fs p =
            Inr (path_parent p @
              [path_stem (path_name p) @ ''_'' @ str_nat N @ path_suffix (path_name p)])
      \<or> (\<exists>e'. try_exists fs (new_path p N) = Inl e' \<and> get_unique_filename fs p = Inl e')"
    unfolding g by (simp add: new_path_def)
  with N(1,2) show "\<exists>N\<ge>1. (\<forall>k. 1 \<le> k \<and> k < N \<longrightarrow> try_exists fs (new_path p k) = Inr True)
           \<and> (try_exists fs (new_path p N) = Inr False
                \<and> get_unique_filename fs p =
                    Inr (path_parent p @
                      [path_stem (path_name p) @ ''_'' @ str_nat N @ path_suffix (path_name p)])
              \<or> (\<exists>e'. try_exists fs (new_path p N) = Inl e'
                    \<and> get_unique_filename fs p = Inl e'))"
    by (intro exI [of _ N] conjI)
next
  assume h: "path_exists fs p \<and> \<not> name_too_long p \<and> NAME_MAX < length (path_name p) + 2"
  then have t: "try_exists fs p = Inr True"
    by (simp add: try_exists_def)
  from h have "name_too_long (new_path p 1)"
    by (intro new_path_too_long) simp
  then have c: "try_exists fs (new_path p 1) = Inl OSError"
    by (simp only: try_exists_def if_True)
  have "get_unique_loop fs p 1 = Inl OSError"
    by (subst get_unique_loop.simps) (simp only: c sum.case)
  with t show "get_unique_filename fs p = Inl OSError"
    by (simp add: get_unique_filename_def)
next
  assume same: "\<forall>q. path_exists fs' q = path_exists fs q"
  then have "get_unique_loop fs' p 1 = get_unique_loop fs p 1"
    by (rule get_unique_loop_cong)
  with same show "get_unique_filename fs' p = get_unique_filename fs p"
    by (simp add: get_unique_filename_def try_exists_def)
qed

theorem get_unique_filename_least_witness:
  "try_exists fs_one [''dest'', ''a.txt''] = Inr True
   \<and> get_unique_filename fs_one [''dest'', ''a.txt''] = Inr [''dest'', ''a_1.txt'']
   \<and> try_exists fs_two [''dest'', ''a.txt''] = Inr True
   \<and> get_unique_filename fs_two [''dest'', ''a.txt''] = Inr [''dest'', ''a_2.txt'']
   \<and> try_exists fs_one [''dest'', ''b.txt''] = Inr False
   \<and> get_unique_filename fs_one [''dest'', ''b.txt''] = Inr [''dest'', ''b.txt'']
   \<and> get_unique_filename (rev fs_two) [''dest'', ''a.txt''] = Inr [''dest'', ''a_2.txt'']
   \<and> path_exists fs_long [''dest'', long_name]
   \<and> \<not> name_too_long [''dest'', long_name]
   \<and> NAME_MAX < length (path_name [''dest'', long_name]) + 2
   \<and> get_unique_filename fs_long [''dest'', long_name] = Inl OSError"
proof -
  have same: "\<forall>q. path_exists (rev fs_two) q = path_exists fs_two q"
    by (simp add: path_exists_def node_at_def fs_two_def)
  have e1: "try_exists fs_one [''dest'', ''a.txt''] = Inr True"
    by code_simp
  have e2: "try_exists fs_two [''dest'', ''a.txt''] = Inr True"
    by code_simp
  have n1: "try_exists fs_one [''dest'', ''b.txt''] = Inr False"
    by code_simp
  have r2: "get_unique_filename fs_two [''dest'', ''a.txt''] = Inr [''dest'', ''a_2.txt'']"
    by code_simp
  have r1: "get_unique_filename fs_one [''dest'', ''a.txt''] = Inr [''dest'', ''a_1.txt'']"
    by code_simp
  have l: "path_exists fs_long [''dest'', long_name]" "\<not> name_too_long [''dest'', long_name]"
    "NAME_MAX < length (path_name [''dest'', long_name]) + 2"
    by code_simp+
  note t1 = get_unique_filename_least [of fs_one "[''dest'', ''b.txt'']" OSError fs_one]
  from t1 [THEN conjunct1] n1
  have r3: "get_unique_filename fs_one [''dest'', ''b.txt''] = Inr [''dest'', ''b.txt'']"
    by (rule mp)
  note t2 = get_unique_filename_least [of fs_two "[''dest'', ''a.txt'']" OSError "rev fs_two"]
  from t2 [THEN conjunct2, THEN conjunct2, THEN conjunct2, THEN conjunct2] same
  have "get_unique_filename (rev fs_two) [''dest'', ''a.txt'']
      = get_unique_filename fs_two [''dest'', ''a.txt'']"
    by (rule mp)
  with r2 have r4: "get_unique_filename (rev fs_two) [''dest'', ''a.txt''] = Inr [''dest'', ''a_2.txt'']"
    by simp
  note t3 = get_unique_filename_least [of fs_long "[''dest'', long_name]" OSError fs_long]
  from t3 [THEN conjunct2, THEN conjunct2, THEN conjunct2, THEN conjunct1] l
  have r5: "get_unique_filename fs_long [''dest'', long_name] = Inl OSError"
    by simp
  from e1 r1 e2 r2 n1 r3 r4 l r5 show ?thesis
    by (intro conjI)
qed
subsection \<open>Preconditions of \<open>organize_files\<close>\<close>



subsection \<open>Loading a configuration that cannot be read\<close>

text \<open>
  Claim C9 states that \<open>load_config\<close> returns \<open>False\<close> without raising when loading
  fails. The handler names \<open>json.JSONDecoder\<close>, which is not an exception class, so
  whatever exception opening or parsing the file raises, the \<open>except\<close> clause itself
  raises \<open>TypeError\<close>: nothing is returned and nothing is logged. Only the absent file
  returns \<open>False\<close>. The table is left as it was in both cases.
\<close>

theorem load_config_failure_raises:
  "load_config (Config_Raises e) w = (Inl TypeError, w)
   \<and> load_config Config_Absent w = (Inr False, w\<lparr>logged := logged w @ [Log_Warning_ConfigNotFound]\<rparr>)"
  by (simp add: load_config_def except_match_def)

subsection \<open>An exclude pattern that is not a regular expression\<close>

lemma organize_body_rejected:
  "apply_filters lib opts (disk w) file_path = (Inr False, warnings) \<Longrightarrow>
   organize_body lib dest_path opts file_path counts w
     = (None, counts, w\<lparr>logged := logged w @ warnings\<rparr>)"
  by (simp add: organize_body_def)

lemma organize_body_filter_raises:
  "apply_filters lib opts (disk w) file_path = (Inl e, warnings) \<Longrightarrow>
   organize_body lib dest_path opts file_path counts w
     = (Some e, counts, w\<lparr>logged := logged w @ warnings\<rparr>)"
  by (simp add: organize_body_def)

lemma except_Exception: "except_match [Cls_Exception] e = Inr True"
  by (simp add: except_match_def)

lemma organize_step_body:
  "organize_step lib dest_path opts file_path counts w =
     (case organize_body lib dest_path opts file_path counts w of
        (None, counts', w') \<Rightarrow> (Inr counts', w')
      | (Some e, counts', w') \<Rightarrow>
          (Inr counts', w'\<lparr>logged := logged w' @ [Log_Error_Processing file_path e]\<rparr>))"
  by (simp add: organize_step_def except_Exception split: prod.splits option.splits)

lemma matches_pattern_invalid:
  "re_search lib bad filename = Inl ReError \<Longrightarrow> bad \<noteq> [] \<Longrightarrow>
   matches_pattern lib filename (Some bad) = (Inr True, [Log_Warning_InvalidRegex bad])"
  by (simp add: matches_pattern_def truthy_def except_match_def)

text \<open>
  Claim C7 states that a file is rejected because of the exclude pattern only when the
  pattern is valid and matches. \<open>matches_pattern\<close> answers \<open>True\<close> for a pattern that
  does not compile, and the loop skips the file when \<open>matches_pattern\<close> answers \<open>True\<close>
  for the exclude pattern: with an exclude pattern that is not a regular expression
  no file passes the filters, whatever its name. When matching the include pattern
  returns, the file is rejected: it is not counted, the file system and the operations
  log are untouched, and only the warnings are logged. When matching the include
  pattern raises, the file is not counted either, and the error is logged after the
  warnings.
\<close>

theorem invalid_exclude_pattern_rejects:
  assumes "re_search lib bad (path_name file_path) = Inl ReError" and "bad \<noteq> []"
  shows "fst (apply_filters lib (opts\<lparr>exclude_pattern := Some bad\<rparr>) (disk w) file_path) \<noteq> Inr True
   \<and> ((\<forall>e. fst (matches_pattern lib (path_name file_path) (pattern opts)) \<noteq> Inl e) \<longrightarrow>
        fst (apply_filters lib (opts\<lparr>exclude_pattern := Some bad\<rparr>) (disk w) file_path) = Inr False
      \<and> organize_step lib dest_path (opts\<lparr>exclude_pattern := Some bad\<rparr>) file_path counts w
          = (Inr counts,
             w\<lparr>logged := logged w @
               snd (apply_filters lib (opts\<lparr>exclude_pattern := Some bad\<rparr>) (disk w) file_path)\<rparr>))
   \<and> (\<forall>e. fst (matches_pattern lib (path_name file_path) (pattern opts)) = Inl e \<longrightarrow>
        organize_step lib dest_path (opts\<lparr>exclude_pattern := Some bad\<rparr>) file_path counts w
          = (Inr counts,
             w\<lparr>logged := logged w @
               snd (apply_filters lib (opts\<lparr>exclude_pattern := Some bad\<rparr>) (disk w) file_path)
               @ [Log_Error_Processing file_path e]\<rparr>))"
proof -
  let ?opts = "opts\<lparr>exclude_pattern := Some bad\<rparr>"
  have ex: "matches_pattern lib (path_name file_path) (Some bad)
      = (Inr True, [Log_Warning_InvalidRegex bad])"
    using assms by (rule matches_pattern_invalid)
  have t: "truthy (Some bad)"
    using assms by (simp add: truthy_def)
  obtain incl warn_incl where
    i: "matches_pattern lib (path_name file_path) (pattern opts) = (incl, warn_incl)"
    by (cases "matches_pattern lib (path_name file_path) (pattern opts)")
  show ?thesis
  proof (cases incl)
    case (Inl e)
    with i ex t have a: "apply_filters lib ?opts (disk w) file_path = (Inl e, warn_incl)"
      by (simp add: apply_filters_def)
    then have "organize_body lib dest_path ?opts file_path counts w
        = (Some e, counts, w\<lparr>logged := logged w @ warn_incl\<rparr>)"
      by (rule organize_body_filter_raises)
    then have "organize_step lib dest_path ?opts file_path counts w
        = (Inr counts, w\<lparr>logged := logged w @ warn_incl @ [Log_Error_Processing file_path e]\<rparr>)"
      by (simp add: organize_step_body)
    with a i Inl show ?thesis by simp
  next
    case (Inr m_incl)
    with i ex t have "\<exists>warnings. apply_filters lib ?opts (disk w) file_path = (Inr False, warnings)"
      by (simp add: apply_filters_def)
    then obtain warnings where a: "apply_filters lib ?opts (disk w) file_path = (Inr False, warnings)"
      by blast
    then have "organize_body lib dest_path ?opts file_path counts w
        = (None, counts, w\<lparr>logged := logged w @ warnings\<rparr>)"
      by (rule organize_body_rejected)
    then have "organize_step lib dest_path ?opts file_path counts w
        = (Inr counts, w\<lparr>logged := logged w @ warnings\<rparr>)"
      by (simp add: organize_step_body)
    with a i Inr show ?thesis by simp
  qed
qed

theorem invalid_exclude_pattern_rejects_witness:
  "organize_files example_library [''home''] [''out'']
      (default_options\<lparr>exclude_pattern := Some ''[''\<rparr>) (new_organizer fs_plain)
    = (Inr (0, 0), (new_organizer fs_plain)\<lparr>logged := [Log_Warning_InvalidRegex ''['']\<rparr>)
   \<and> organize_files example_library [''home''] [''out'']
      (default_options\<lparr>pattern := Some ''[''\<rparr>) (new_organizer fs_plain)
    = (Inr (1, 1),
       \<lparr>file_types = DEFAULT_FILE_TYPES,
        operations_log = [\<lparr>e_operation = ''move'', e_source = [''home'', ''notes.txt''],
           e_destination = [''out'', ''Documents'', ''notes.txt''], e_category = ''Documents''\<rparr>],
        disk = [([''home''], Dir), ([''out''], Dir), ([''out'', ''Documents''], Dir),
                ([''out'', ''Documents'', ''notes.txt''], File ''hello'')],
        printed = [Print_Done ''Moved'' ''notes.txt'' ''Documents''],
        logged = [Log_Warning_InvalidRegex ''['']\<rparr>)
   \<and> organize_files example_library [''home''] [''out'']
      (default_options\<lparr>pattern := Some ''a{4294967296}'', exclude_pattern := Some ''[''\<rparr>)
      (new_organizer fs_plain)
    = (Inr (0, 0),
       (new_organizer fs_plain)\<lparr>logged :=
          [Log_Error_Processing [''home'', ''notes.txt''] OverflowError]\<rparr>)"
proof -
  let ?f = "[''home'', ''notes.txt'']"
  let ?w = "new_organizer fs_plain"
  have bad: "re_search example_library ''['' (path_name ?f) = Inl ReError" "''['' \<noteq> []"
    by (simp_all add: example_library_def)
  have cand: "candidate_files fs_plain [''home''] False = [?f]"
    by code_simp
  have pre: "path_exists fs_plain [''home'']" "is_dir fs_plain [''home'']"
    by (simp_all add: path_exists_def is_dir_def node_at_def fs_plain_def)
  have incl: "matches_pattern example_library (path_name ?f) (pattern default_options) = (Inr True, [])"
    by code_simp
  have a: "apply_filters example_library (default_options\<lparr>exclude_pattern := Some ''[''\<rparr>)
      fs_plain ?f = (Inr False, [Log_Warning_InvalidRegex ''['']) "
    by code_simp
  note t = invalid_exclude_pattern_rejects [OF bad, of default_options ?w "[''out'']" "(0, 0)"]
  from t [THEN conjunct2, THEN conjunct1] incl
  have step: "organize_step example_library [''out''] (default_options\<lparr>exclude_pattern := Some ''[''\<rparr>)
      ?f (0, 0) ?w
    = (Inr (0, 0), ?w\<lparr>logged := [Log_Warning_InvalidRegex ''['']\<rparr>)"
    by (simp add: a new_organizer_def)
  have one: "organize_files example_library [''home''] [''out'']
      (default_options\<lparr>exclude_pattern := Some ''[''\<rparr>) ?w
    = (Inr (0, 0), ?w\<lparr>logged := [Log_Warning_InvalidRegex ''['']\<rparr>)"
    using pre cand step
    by (simp add: organize_files_def new_organizer_def default_options_def)
  have two: "organize_files example_library [''home''] [''out'']
      (default_options\<lparr>pattern := Some ''[''\<rparr>) ?w
    = (Inr (1, 1),
       \<lparr>file_types = DEFAULT_FILE_TYPES,
        operations_log = [\<lparr>e_operation = ''move'', e_source = [''home'', ''notes.txt''],
           e_destination = [''out'', ''Documents'', ''notes.txt''], e_category = ''Documents''\<rparr>],
        disk = [([''home''], Dir), ([''out''], Dir), ([''out'', ''Documents''], Dir),
                ([''out'', ''Documents'', ''notes.txt''], File ''hello'')],
        printed = [Print_Done ''Moved'' ''notes.txt'' ''Documents''],
        logged = [Log_Warning_InvalidRegex ''['']\<rparr>)"
    by code_simp
  have three: "organize_files example_library [''home''] [''out'']
      (default_options\<lparr>pattern := Some ''a{4294967296}'', exclude_pattern := Some ''[''\<rparr>) ?w
    = (Inr (0, 0), ?w\<lparr>logged := [Log_Error_Processing [''home'', ''notes.txt''] OverflowError]\<rparr>)"
    by code_simp
  from one two three show ?thesis
    by (intro conjI)
qed
subsection \<open>Undoing in dry-run mode\<close>



lemma undo_loop_append:
  "undo_loop dry (xs @ ys) n u =
     (case undo_loop dry xs n u of
        (Inl e, u') \<Rightarrow> (Inl e, u')
      | (Inr k, u') \<Rightarrow> undo_loop dry ys k u')"
  by (induction xs arbitrary: n u) (auto split: prod.splits sum.splits)




subsection \<open>The outcomes of one iteration of \<open>organize_files\<close>\<close>

lemma organize_body_target_raises:
  "apply_filters lib opts (disk w) file_path = (Inr True, warnings) \<Longrightarrow>
   target_file_of lib w dest_path file_path = Inl e \<Longrightarrow>
   organize_body lib dest_path opts file_path counts w =
     (Some e, (fst counts + 1, snd counts), w\<lparr>logged := logged w @ warnings\<rparr>)"
  by (simp add: organize_body_def Let_def target_file_of_def target_dir_of_def)

lemma organize_body_dry_run:
  "apply_filters lib opts (disk w) file_path = (Inr True, warnings) \<Longrightarrow>
   target_file_of lib w dest_path file_path = Inr target_file \<Longrightarrow> dry_run opts \<Longrightarrow>
   organize_body lib dest_path opts file_path counts w =
     (None, (fst counts + 1, snd counts),
      w\<lparr>logged := logged w @ warnings,
        printed := printed w @
          [Print_DryRun (if copy_files opts then ''copy'' else ''move'') file_path target_file]\<rparr>)"
  by (simp add: organize_body_def Let_def target_file_of_def target_dir_of_def)

lemma organize_body_mkdir_fails:
  "apply_filters lib opts (disk w) file_path = (Inr True, warnings) \<Longrightarrow>
   target_file_of lib w dest_path file_path = Inr target_file \<Longrightarrow> \<not> dry_run opts \<Longrightarrow>
   mkdir_parents (disk w) (target_dir_of lib w dest_path file_path) = Inl e \<Longrightarrow>
   organize_body lib dest_path opts file_path counts w =
     (Some e, (fst counts + 1, snd counts), w\<lparr>logged := logged w @ warnings\<rparr>)"
  by (simp add: organize_body_def Let_def target_file_of_def target_dir_of_def)

lemma organize_body_transfer_fails:
  "apply_filters lib opts (disk w) file_path = (Inr True, warnings) \<Longrightarrow>
   target_file_of lib w dest_path file_path = Inr target_file \<Longrightarrow> \<not> dry_run opts \<Longrightarrow>
   mkdir_parents (disk w) (target_dir_of lib w dest_path file_path) = Inr fs1 \<Longrightarrow>
   (if copy_files opts then shutil_copy2 fs1 file_path target_file
    else shutil_move fs1 file_path target_file) = Inl e \<Longrightarrow>
   organize_body lib dest_path opts file_path counts w =
     (Some e, (fst counts + 1, snd counts), w\<lparr>logged := logged w @ warnings, disk := fs1\<rparr>)"
  by (cases "copy_files opts")
    (simp_all add: organize_body_def Let_def target_file_of_def target_dir_of_def)

lemma organize_body_transfers:
  "apply_filters lib opts (disk w) file_path = (Inr True, warnings) \<Longrightarrow>
   target_file_of lib w dest_path file_path = Inr target_file \<Longrightarrow> \<not> dry_run opts \<Longrightarrow>
   mkdir_parents (disk w) (target_dir_of lib w dest_path file_path) = Inr fs1 \<Longrightarrow>
   (if copy_files opts then shutil_copy2 fs1 file_path target_file
    else shutil_move fs1 file_path target_file) = Inr fs2 \<Longrightarrow>
   organize_body lib dest_path opts file_path counts w =
     (None, (fst counts + 1, snd counts + 1),
      w\<lparr>logged := logged w @ warnings, disk := fs2,
        operations_log := operations_log w @
          [\<lparr>e_operation = (if copy_files opts then ''copy'' else ''move''),
            e_source = file_path, e_destination = target_file,
            e_category = get_category lib (file_types w) (path_suffix (path_name file_path))\<rparr>],
        printed := printed w @
          [Print_Done (if copy_files opts then ''Copied'' else ''Moved'')
             (path_name file_path)
             (get_category lib (file_types w) (path_suffix (path_name file_path)))]\<rparr>)"
  by (cases "copy_files opts")
    (simp_all add: organize_body_def Let_def target_file_of_def target_dir_of_def)

text \<open>
  The seven outcomes cover the body: every run of it is one of them.
\<close>

lemma organize_body_outcomes:
  obtains
    (filter_raises) warnings e where
      "apply_filters lib opts (disk w) file_path = (Inl e, warnings)"
  | (rejected) warnings where
      "apply_filters lib opts (disk w) file_path = (Inr False, warnings)"
  | (target_raises) warnings e where
      "apply_filters lib opts (disk w) file_path = (Inr True, warnings)"
      "target_file_of lib w dest_path file_path = Inl e"
  | (dry) warnings target_file where
      "apply_filters lib opts (disk w) file_path = (Inr True, warnings)"
      "target_file_of lib w dest_path file_path = Inr target_file" "dry_run opts"
  | (mkdir_fails) warnings target_file e where
      "apply_filters lib opts (disk w) file_path = (Inr True, warnings)"
      "target_file_of lib w dest_path file_path = Inr target_file" "\<not> dry_run opts"
      "mkdir_parents (disk w) (target_dir_of lib w dest_path file_path) = Inl e"
  | (transfer_fails) warnings target_file fs1 e where
      "apply_filters lib opts (disk w) file_path = (Inr True, warnings)"
      "target_file_of lib w dest_path file_path = Inr target_file" "\<not> dry_run opts"
      "mkdir_parents (disk w) (target_dir_of lib w dest_path file_path) = Inr fs1"
      "(if copy_files opts then shutil_copy2 fs1 file_path target_file
        else shutil_move fs1 file_path target_file) = Inl e"
  | (transfers) warnings target_file fs1 fs2 where
      "apply_filters lib opts (disk w) file_path = (Inr True, warnings)"
      "target_file_of lib w dest_path file_path = Inr target_file" "\<not> dry_run opts"
      "mkdir_parents (disk w) (target_dir_of lib w dest_path file_path) = Inr fs1"
      "(if copy_files opts then shutil_copy2 fs1 file_path target_file
        else shutil_move fs1 file_path target_file) = Inr fs2"
proof -
  obtain pass warnings where a: "apply_filters lib opts (disk w) file_path = (pass, warnings)"
    by (cases "apply_filters lib opts (disk w) file_path")
  show thesis
  proof (cases pass)
    case (Inl e)
    with a filter_raises show thesis by simp
  next
    case (Inr passed)
    show thesis
    proof (cases passed)
      case False
      with a Inr rejected show thesis by simp
    next
      case True
      with a Inr have pass: "apply_filters lib opts (disk w) file_path = (Inr True, warnings)"
        by simp
      show thesis
      proof (cases "target_file_of lib w dest_path file_path")
        case (Inl e)
        with pass target_raises show thesis by simp
      next
        case (Inr target_file)
        note target = this
        show thesis
        proof (cases "dry_run opts")
          case True
          with pass target dry show thesis by simp
        next
          case False
          note live = this
          show thesis
          proof (cases "mkdir_parents (disk w) (target_dir_of lib w dest_path file_path)")
            case (Inl e)
            with pass target live mkdir_fails show thesis by simp
          next
            case (Inr fs1)
            note made = this
            show thesis
            proof (cases "if copy_files opts
                then shutil_copy2 fs1 file_path target_file
                else shutil_move fs1 file_path target_file")
              case (Inl e)
              from pass target live made this show thesis
                by (intro transfer_fails [of warnings target_file fs1 e]) simp_all
            next
              case (Inr fs2)
              from pass target live made this show thesis
                by (intro transfers [of warnings target_file fs1 fs2]) simp_all
            qed
          qed
        qed
      qed
    qed
  qed
qed

lemma organize_step_returns:
  "\<exists>counts' w'. organize_step lib dest_path opts file_path counts w = (Inr counts', w')"
  by (simp add: organize_step_body split: prod.splits option.splits)

lemma organize_loop_returns:
  "\<exists>counts' w'. organize_loop lib dest_path opts files counts w = (Inr counts', w')"
proof (induction files arbitrary: counts w)
  case Nil
  show ?case by simp
next
  case (Cons file_path files)
  obtain c1 w1 where s: "organize_step lib dest_path opts file_path counts w = (Inr c1, w1)"
    using organize_step_returns by blast
  with Cons.IH [of c1 w1] show ?case by simp
qed



lemma target_file_not_made:
  assumes "target_file_of lib w dest_path file_path = Inr t"
    and "mkdir_parents (disk w) (target_dir_of lib w dest_path file_path) = Inr fs1"
  shows "node_at fs1 t = None"
proof -
  let ?d = "target_dir_of lib w dest_path file_path"
  obtain x where t: "t = ?d @ [x]"
    using assms(1) unfolding target_file_of_def by (rule get_unique_filename_in_parent [elim_format]) blast
  have free: "\<not> path_exists (disk w) t"
    using assms(1) unfolding target_file_of_def by (rule get_unique_filename_free)
  from mkdir_parents_new [OF assms(2) free] show ?thesis
  proof
    assume "node_at fs1 t = None"
    then show ?thesis .
  next
    assume "node_at fs1 t = Some Dir \<and> (\<exists>k. 0 < k \<and> k \<le> length ?d \<and> t = take k ?d)"
    then obtain k where "k \<le> length ?d" "t = take k ?d" by blast
    then have "length t \<le> length ?d" by (metis length_take min.absorb2 order_refl)
    with t show ?thesis by simp
  qed
qed

lemma shutil_move_file_to_free:
  "node_at fs src = Some (File c) \<Longrightarrow> node_at fs dst = None \<Longrightarrow> shutil_move fs src dst = Inr fs2 \<Longrightarrow>
   fs2 = AList.update dst (File c) (AList.delete src fs)"
  by (auto simp: shutil_move_def is_dir_def Let_def split: option.splits if_splits)



lemma is_file_node: "is_file fs f = (\<exists>c. node_at fs f = Some (File c))"
  by (auto simp: is_file_def split: option.splits node.splits)

lemma candidate_files_distinct: "distinct (candidate_files fs d r)"
  by (simp add: candidate_files_def iterdir_def rglob_all_def)

lemma candidate_files_is_file: "f \<in> set (candidate_files fs d r) \<Longrightarrow> is_file fs f"
  by (simp add: candidate_files_def split: if_splits)
subsection \<open>Per-file isolation\<close>

lemma organize_step_log:
  "\<exists>new. operations_log (snd (organize_step lib dest_path opts file_path counts w))
     = operations_log w @ new"
proof (cases rule: organize_body_outcomes [where lib = lib and opts = opts and w = w
    and file_path = file_path and dest_path = dest_path])
  case (filter_raises warnings e')
  from organize_body_filter_raises [OF this] show ?thesis
    by (simp add: organize_step_body)
next
  case (rejected warnings)
  from organize_body_rejected [OF this] show ?thesis
    by (simp add: organize_step_body)
next
  case (target_raises warnings e')
  from organize_body_target_raises [OF this] show ?thesis
    by (simp add: organize_step_body)
next
  case (dry warnings target_file)
  from organize_body_dry_run [OF this] show ?thesis
    by (simp add: organize_step_body)
next
  case (mkdir_fails warnings target_file e')
  from organize_body_mkdir_fails [OF this] show ?thesis
    by (simp add: organize_step_body)
next
  case (transfer_fails warnings target_file fs1 e')
  from organize_body_transfer_fails [OF this] show ?thesis
    by (simp add: organize_step_body)
next
  case (transfers warnings target_file fs1 fs2)
  from organize_body_transfers [OF this] show ?thesis
    by (simp add: organize_step_body)
qed

lemma organize_loop_log:
  "\<exists>new. operations_log (snd (organize_loop lib dest_path opts files counts w))
     = operations_log w @ new"
proof (induction files arbitrary: counts w)
  case Nil
  show ?case by simp
next
  case (Cons file_path files)
  obtain c1 w1 where s: "organize_step lib dest_path opts file_path counts w = (Inr c1, w1)"
    using organize_step_returns by blast
  from organize_step_log [of lib dest_path opts file_path counts w] s
  obtain new1 where n1: "operations_log w1 = operations_log w @ new1" by auto
  from Cons.IH [of c1 w1] obtain new2 where
    "operations_log (snd (organize_loop lib dest_path opts files c1 w1)) = operations_log w1 @ new2"
    by blast
  with s n1 have "operations_log (snd (organize_loop lib dest_path opts (file_path # files) counts w))
      = operations_log w @ (new1 @ new2)"
    by simp
  then show ?case by blast
qed





subsection \<open>Dry runs\<close>

lemma organize_step_dry_run_frame:
  assumes "dry_run opts"
  shows "disk (snd (organize_step lib dest_path opts file_path counts w)) = disk w
    \<and> operations_log (snd (organize_step lib dest_path opts file_path counts w)) = operations_log w
    \<and> file_types (snd (organize_step lib dest_path opts file_path counts w)) = file_types w"
proof (cases rule: organize_body_outcomes [where lib = lib and opts = opts and w = w
    and file_path = file_path and dest_path = dest_path])
  case (filter_raises warnings e)
  from organize_body_filter_raises [OF this] show ?thesis
    by (simp add: organize_step_body)
next
  case (rejected warnings)
  from organize_body_rejected [OF this] show ?thesis
    by (simp add: organize_step_body)
next
  case (target_raises warnings e)
  from organize_body_target_raises [OF this] show ?thesis
    by (simp add: organize_step_body)
next
  case (dry warnings target_file)
  from organize_body_dry_run [OF this] show ?thesis
    by (simp add: organize_step_body)
next
  case (mkdir_fails warnings target_file e)
  with assms show ?thesis by simp
next
  case (transfer_fails warnings target_file fs1 e)
  with assms show ?thesis by simp
next
  case (transfers warnings target_file fs1 fs2)
  with assms show ?thesis by simp
qed

lemma organize_loop_dry_run_frame:
  assumes "dry_run opts"
  shows "disk (snd (organize_loop lib dest_path opts files counts w)) = disk w
    \<and> operations_log (snd (organize_loop lib dest_path opts files counts w)) = operations_log w
    \<and> file_types (snd (organize_loop lib dest_path opts files counts w)) = file_types w"
proof (induction files arbitrary: counts w)
  case Nil
  show ?case by simp
next
  case (Cons file_path files)
  obtain c1 w1 where s: "organize_step lib dest_path opts file_path counts w = (Inr c1, w1)"
    using organize_step_returns by blast
  with organize_step_dry_run_frame [OF assms, of lib dest_path file_path counts w]
  have "disk w1 = disk w" "operations_log w1 = operations_log w" "file_types w1 = file_types w"
    by simp_all
  with s Cons.IH [of c1 w1] show ?case by simp
qed

text \<open>
  A run with \<open>dry_run = True\<close> leaves the file system and the operations log as they
  are, for every source, destination and options.
\<close>

lemma organize_files_dry_run_frame:
  assumes "dry_run opts"
  shows "disk (snd (organize_files lib src_path dest_path opts w)) = disk w
    \<and> operations_log (snd (organize_files lib src_path dest_path opts w)) = operations_log w"
  using organize_loop_dry_run_frame [OF assms] by (simp add: organize_files_def)

lemma apply_filters_dry_run_irrelevant:
  "apply_filters lib (opts\<lparr>dry_run := b\<rparr>) fs f = apply_filters lib opts fs f"
  by (simp add: apply_filters_def cong: prod.case_cong sum.case_cong if_cong)

text \<open>
  From one and the same state, the target a dry step reports for a file is the target
  a live step records for it: both are \<open>get_unique_filename\<close> of the same path on the
  same file system.
\<close>

lemma dry_step_reports_target_of_live_step:
  assumes pass: "apply_filters lib opts (disk w) file_path = (Inr True, warnings)"
    and target: "target_file_of lib w dest_path file_path = Inr target_file"
  shows "organize_step lib dest_path (opts\<lparr>dry_run := True\<rparr>) file_path counts w
      = (Inr (fst counts + 1, snd counts),
         w\<lparr>logged := logged w @ warnings,
           printed := printed w @
             [Print_DryRun (if copy_files opts then ''copy'' else ''move'') file_path target_file]\<rparr>)"
    and "\<forall>e \<in> set (drop (length (operations_log w))
           (operations_log (snd (organize_step lib dest_path (opts\<lparr>dry_run := False\<rparr>)
              file_path counts w)))).
          e_source e = file_path \<and> e_destination e = target_file"
proof -
  from pass have p: "\<And>b. apply_filters lib (opts\<lparr>dry_run := b\<rparr>) (disk w) file_path
      = (Inr True, warnings)"
    by (simp add: apply_filters_dry_run_irrelevant)
  from organize_body_dry_run [OF p target, of True counts]
  show "organize_step lib dest_path (opts\<lparr>dry_run := True\<rparr>) file_path counts w
      = (Inr (fst counts + 1, snd counts),
         w\<lparr>logged := logged w @ warnings,
           printed := printed w @
             [Print_DryRun (if copy_files opts then ''copy'' else ''move'') file_path target_file]\<rparr>)"
    by (simp add: organize_step_body)
  let ?live = "opts\<lparr>dry_run := False\<rparr>"
  show "\<forall>e \<in> set (drop (length (operations_log w))
           (operations_log (snd (organize_step lib dest_path ?live file_path counts w)))).
          e_source e = file_path \<and> e_destination e = target_file"
  proof (cases rule: organize_body_outcomes [where lib = lib and opts = ?live and w = w
      and file_path = file_path and dest_path = dest_path])
    case (filter_raises warnings' e)
    with p [of False] show ?thesis by simp
  next
    case (rejected warnings')
    with p [of False] show ?thesis by simp
  next
    case (target_raises warnings' e)
    with target show ?thesis by simp
  next
    case (dry warnings' t)
    then show ?thesis by simp
  next
    case (mkdir_fails warnings' t e)
    from organize_body_mkdir_fails [OF this] show ?thesis
      by (simp add: organize_step_body)
  next
    case (transfer_fails warnings' t fs1 e)
    from organize_body_transfer_fails [OF this] show ?thesis
      by (simp add: organize_step_body)
  next
    case (transfers warnings' t fs1 fs2)
    from organize_body_transfers [OF this] transfers(2) target show ?thesis
      by (simp add: organize_step_body)
  qed
qed

lemma twins_dry_run:
  "organize_files example_library [''s''] [''o'']
      (default_options\<lparr>recursive := True, dry_run := True\<rparr>) (new_organizer fs_twins)
   = (Inr (2, 0),
      (new_organizer fs_twins)\<lparr>printed :=
         [Print_DryRun ''move'' [''s'', ''a'', ''x.jpg''] [''o'', ''Images'', ''x.jpg''],
          Print_DryRun ''move'' [''s'', ''b'', ''x.jpg''] [''o'', ''Images'', ''x.jpg'']]\<rparr>)"
  by code_simp

lemma twins_reported:
  "reported_actions (snd (organize_files example_library [''s''] [''o'']
      (default_options\<lparr>recursive := True, dry_run := True\<rparr>) (new_organizer fs_twins)))
   = [([''s'', ''a'', ''x.jpg''], [''o'', ''Images'', ''x.jpg'']),
      ([''s'', ''b'', ''x.jpg''], [''o'', ''Images'', ''x.jpg''])]"
  by code_simp

lemma twins_executed:
  "executed_actions (snd (organize_files example_library [''s''] [''o'']
      (default_options\<lparr>recursive := True, dry_run := False\<rparr>) (new_organizer fs_twins)))
   = [([''s'', ''a'', ''x.jpg''], [''o'', ''Images'', ''x.jpg'']),
      ([''s'', ''b'', ''x.jpg''], [''o'', ''Images'', ''x_1.jpg''])]"
  by code_simp

lemma twins_actions_differ:
  "set [([''s'', ''a'', ''x.jpg''], [''o'', ''Images'', ''x.jpg'']),
        ([''s'', ''b'', ''x.jpg''], [''o'', ''Images'', ''x.jpg''])]
    \<noteq> set [([''s'', ''a'', ''x.jpg''], [''o'', ''Images'', ''x.jpg'']),
        ([''s'', ''b'', ''x.jpg''], [''o'', ''Images'', ''x_1.jpg''])]"
proof
  assume eq: "set [([''s'', ''a'', ''x.jpg''], [''o'', ''Images'', ''x.jpg'']),
        ([''s'', ''b'', ''x.jpg''], [''o'', ''Images'', ''x.jpg''])]
    = set [([''s'', ''a'', ''x.jpg''], [''o'', ''Images'', ''x.jpg'']),
        ([''s'', ''b'', ''x.jpg''], [''o'', ''Images'', ''x_1.jpg''])]"
  have "([''s'', ''b'', ''x.jpg''], [''o'', ''Images'', ''x_1.jpg''])
    \<in> set [([''s'', ''a'', ''x.jpg''], [''o'', ''Images'', ''x.jpg'']),
        ([''s'', ''b'', ''x.jpg''], [''o'', ''Images'', ''x_1.jpg''])]"
    by simp
  with eq have "([''s'', ''b'', ''x.jpg''], [''o'', ''Images'', ''x_1.jpg''])
    \<in> set [([''s'', ''a'', ''x.jpg''], [''o'', ''Images'', ''x.jpg'']),
        ([''s'', ''b'', ''x.jpg''], [''o'', ''Images'', ''x.jpg''])]"
    by (simp only:)
  then show False by simp
qed

text \<open>
  Claim C6 states that a dry run reports exactly the set of actions that the identical
  run with \<open>dry_run = False\<close> executes. On two files named \<open>x.jpg\<close> in two subdirectories,
  organized recursively, the dry run changes nothing, appends nothing to the
  operations log, and prints \<open>Would move\<close> with the target \<open>o/Images/x.jpg\<close> for both
  files: each target is resolved on the unchanged file system, where that name is free.
  The same run with \<open>dry_run = False\<close> moves the first file to \<open>o/Images/x.jpg\<close> and the
  second to \<open>o/Images/x_1.jpg\<close>, the first transfer having taken the name. The action
  reported for the second file is not the action executed for it.
\<close>

theorem dry_run_actions_differ_from_live_run:
  "wf_fs fs_twins
   \<and> organize_files example_library [''s''] [''o'']
        (default_options\<lparr>recursive := True, dry_run := True\<rparr>) (new_organizer fs_twins)
      = (Inr (2, 0),
         (new_organizer fs_twins)\<lparr>printed :=
            [Print_DryRun ''move'' [''s'', ''a'', ''x.jpg''] [''o'', ''Images'', ''x.jpg''],
             Print_DryRun ''move'' [''s'', ''b'', ''x.jpg''] [''o'', ''Images'', ''x.jpg'']]\<rparr>)
   \<and> fst (organize_files example_library [''s''] [''o'']
        (default_options\<lparr>recursive := True, dry_run := False\<rparr>) (new_organizer fs_twins))
      = Inr (2, 2)
   \<and> reported_actions (snd (organize_files example_library [''s''] [''o'']
        (default_options\<lparr>recursive := True, dry_run := True\<rparr>) (new_organizer fs_twins)))
      = [([''s'', ''a'', ''x.jpg''], [''o'', ''Images'', ''x.jpg'']),
         ([''s'', ''b'', ''x.jpg''], [''o'', ''Images'', ''x.jpg''])]
   \<and> executed_actions (snd (organize_files example_library [''s''] [''o'']
        (default_options\<lparr>recursive := True, dry_run := False\<rparr>) (new_organizer fs_twins)))
      = [([''s'', ''a'', ''x.jpg''], [''o'', ''Images'', ''x.jpg'']),
         ([''s'', ''b'', ''x.jpg''], [''o'', ''Images'', ''x_1.jpg''])]
   \<and> set (reported_actions (snd (organize_files example_library [''s''] [''o'']
        (default_options\<lparr>recursive := True, dry_run := True\<rparr>) (new_organizer fs_twins))))
      \<noteq> set (executed_actions (snd (organize_files example_library [''s''] [''o'']
        (default_options\<lparr>recursive := True, dry_run := False\<rparr>) (new_organizer fs_twins))))"
proof (intro conjI)
  show "wf_fs fs_twins" by code_simp
next
  show "organize_files example_library [''s''] [''o'']
        (default_options\<lparr>recursive := True, dry_run := True\<rparr>) (new_organizer fs_twins)
      = (Inr (2, 0),
         (new_organizer fs_twins)\<lparr>printed :=
            [Print_DryRun ''move'' [''s'', ''a'', ''x.jpg''] [''o'', ''Images'', ''x.jpg''],
             Print_DryRun ''move'' [''s'', ''b'', ''x.jpg''] [''o'', ''Images'', ''x.jpg'']]\<rparr>)"
    by (rule twins_dry_run)
next
  show "fst (organize_files example_library [''s''] [''o'']
        (default_options\<lparr>recursive := True, dry_run := False\<rparr>) (new_organizer fs_twins))
      = Inr (2, 2)"
    by code_simp
next
  show "reported_actions (snd (organize_files example_library [''s''] [''o'']
        (default_options\<lparr>recursive := True, dry_run := True\<rparr>) (new_organizer fs_twins)))
      = [([''s'', ''a'', ''x.jpg''], [''o'', ''Images'', ''x.jpg'']),
         ([''s'', ''b'', ''x.jpg''], [''o'', ''Images'', ''x.jpg''])]"
    by (rule twins_reported)
next
  show "executed_actions (snd (organize_files example_library [''s''] [''o'']
        (default_options\<lparr>recursive := True, dry_run := False\<rparr>) (new_organizer fs_twins)))
      = [([''s'', ''a'', ''x.jpg''], [''o'', ''Images'', ''x.jpg'']),
         ([''s'', ''b'', ''x.jpg''], [''o'', ''Images'', ''x_1.jpg''])]"
    by (rule twins_executed)
next
  show "set (reported_actions (snd (organize_files example_library [''s''] [''o'']
        (default_options\<lparr>recursive := True, dry_run := True\<rparr>) (new_organizer fs_twins))))
      \<noteq> set (executed_actions (snd (organize_files example_library [''s''] [''o'']
        (default_options\<lparr>recursive := True, dry_run := False\<rparr>) (new_organizer fs_twins))))"
    unfolding twins_reported twins_executed by (rule twins_actions_differ)
qed
subsection \<open>Undoing a ledger\<close>

lemma shutil_move_file_back:
  "node_at fs dst = Some (File c) \<Longrightarrow> \<not> is_dir fs src \<Longrightarrow> is_dir fs (path_parent src) \<Longrightarrow>
   shutil_move fs dst src = Inr (AList.update src (File c) (AList.delete dst fs))"
  by (simp add: shutil_move_def parent_error_def)



lemma undo_step_complete:
  "l_source r = Some src \<Longrightarrow> l_destination r = Some dst \<Longrightarrow> l_operation r = Some op_type \<Longrightarrow>
   undo_step False r n w =
     (case undo_body src dst op_type n w of
        (None, n', w') \<Rightarrow> (Inr n', w')
      | (Some e, n', w') \<Rightarrow> (Inr n', w'\<lparr>logged := logged w' @ [Log_Error_Undoing e]\<rparr>))"
  by (simp add: undo_step_def except_Exception split: prod.splits option.splits)

lemma undo_body_moves_back:
  assumes dst: "node_at (disk w) dst = Some (File c)"
    and src: "\<not> is_dir (disk w) src"
    and made: "mkdir_parents (disk w) (path_parent src) = Inr fs1"
  shows "undo_body src dst ''move'' n w =
     (None, n + 1,
      w\<lparr>disk := AList.update src (File c) (AList.delete dst fs1),
        printed := printed w @ [Print_Undone (path_name dst) (path_parent src)]\<rparr>)
    \<and> is_dir fs1 (path_parent src)
    \<and> (\<forall>p. path_exists (disk w) p \<longrightarrow> node_at fs1 p = node_at (disk w) p)"
proof -
  from dst have ex: "path_exists (disk w) dst" by (simp add: path_exists_def)
  have keep: "\<forall>p. path_exists (disk w) p \<longrightarrow> node_at fs1 p = node_at (disk w) p"
    using made by (simp add: mkdir_parents_preserves)
  with dst ex have dst1: "node_at fs1 dst = Some (File c)" by simp
  have par: "is_dir fs1 (path_parent src)"
    using made by (rule mkdir_parents_is_dir)
  have src1: "\<not> is_dir fs1 src"
  proof (cases "path_exists (disk w) src")
    case True
    with keep src show ?thesis by (simp add: is_dir_def)
  next
    case False
    from mkdir_parents_new [OF made False] show ?thesis
    proof
      assume "node_at fs1 src = None"
      then show ?thesis by (simp add: is_dir_def)
    next
      assume "node_at fs1 src = Some Dir
        \<and> (\<exists>k. 0 < k \<and> k \<le> length (path_parent src) \<and> src = take k (path_parent src))"
      then obtain k where k: "k \<le> length (path_parent src)" "src = take k (path_parent src)"
        by blast
      then have "length src \<le> length (path_parent src)"
        by (metis length_take min.absorb2 order_refl)
      then have "src = []" by (cases src rule: rev_cases) (simp_all add: path_parent_def)
      with src show ?thesis by (simp add: is_dir_def node_at_root)
    qed
  qed
  from shutil_move_file_back [OF dst1 src1 par] made ex par keep show ?thesis
    by (simp add: undo_body_def)
qed





subsection \<open>Undoing a run of moves\<close>

text \<open>
  A candidate that is ready to be moved: a regular file all of whose ancestors are
  directories, as every file of a well-formed file system is.
\<close>

lemma wf_fs_parent:
  assumes "wf_fs fs" and "path_exists fs p" and "p \<noteq> []"
  shows "is_dir fs (path_parent p)"
proof -
  from assms(2,3) obtain n where "map_of fs p = Some n"
    by (auto simp: path_exists_def node_at_def)
  then have "(p, n) \<in> set fs" by (rule map_of_SomeD)
  with assms(1) show ?thesis
    by (auto simp: wf_fs_def list_all_iff)
qed

lemma wf_fs_ancestors:
  assumes "wf_fs fs"
  shows "path_exists fs p \<Longrightarrow> k < length p \<Longrightarrow> is_dir fs (take k p)"
proof (induction p arbitrary: k rule: rev_induct)
  case Nil
  then show ?case by simp
next
  case (snoc x xs)
  from wf_fs_parent [OF assms snoc.prems(1)] have d: "is_dir fs xs"
    by (simp add: path_parent_def)
  show ?case
  proof (cases "k = length xs")
    case True
    with d show ?thesis by simp
  next
    case False
    with snoc.prems(2) have k: "k < length xs" by simp
    from d have "path_exists fs xs" by (simp add: is_dir_def path_exists_def)
    from snoc.IH [OF this k] k show ?thesis by simp
  qed
qed

lemma mkdir_walk_existing:
  "(\<forall>k. 0 < k \<and> k \<le> length cs \<longrightarrow> is_dir fs (cur @ take k cs)) \<Longrightarrow> mkdir_walk fs cur cs = Inr fs"
proof (induction cs arbitrary: cur)
  case Nil
  show ?case by simp
next
  case (Cons c cs)
  from Cons.prems have "is_dir fs (cur @ take 1 (c # cs))" by (intro Cons.prems [rule_format]) simp
  then have here: "node_at fs (cur @ [c]) = Some Dir" by (simp add: is_dir_def)
  have "\<forall>k. 0 < k \<and> k \<le> length cs \<longrightarrow> is_dir fs ((cur @ [c]) @ take k cs)"
  proof (intro allI impI)
    fix k assume "0 < k \<and> k \<le> length cs"
    then have "0 < Suc k \<and> Suc k \<le> length (c # cs)" by simp
    from Cons.prems [rule_format, OF this] show "is_dir fs ((cur @ [c]) @ take k cs)" by simp
  qed
  from Cons.IH [OF this] here show ?case by simp
qed

lemma mkdir_parents_existing:
  assumes "\<forall>k. k < length f \<longrightarrow> is_dir fs (take k f)"
  shows "mkdir_parents fs (path_parent f) = Inr fs"
proof -
  have "\<forall>k. 0 < k \<and> k \<le> length (butlast f) \<longrightarrow> is_dir fs ([] @ take k (butlast f))"
  proof (intro allI impI)
    fix k assume k: "0 < k \<and> k \<le> length (butlast f)"
    then have "0 < k \<and> k \<le> length f - 1" by simp
    then have kf: "k < length f" by arith
    with assms have "is_dir fs (take k f)" by simp
    moreover from kf have "take k (butlast f) = take k f"
      by (rule take_butlast)
    ultimately show "is_dir fs ([] @ take k (butlast f))" by simp
  qed
  then show ?thesis
    unfolding mkdir_parents_def path_parent_def by (rule mkdir_walk_existing)
qed

lemma undo_step_move_back:
  assumes "node_at (disk u) t = Some (File c)"
    and "\<not> is_dir (disk u) f"
    and "\<forall>k. k < length f \<longrightarrow> is_dir (disk u) (take k f)"
  shows "undo_step False
      (dump_entry \<lparr>e_operation = ''move'', e_source = f, e_destination = t, e_category = cat\<rparr>) n u
    = (Inr (n + 1),
       u\<lparr>disk := AList.update f (File c) (AList.delete t (disk u)),
         printed := printed u @ [Print_Undone (path_name t) (path_parent f)]\<rparr>)"
proof -
  from assms(3) have m: "mkdir_parents (disk u) (path_parent f) = Inr (disk u)"
    by (rule mkdir_parents_existing)
  from undo_body_moves_back [OF assms(1,2) m, of n]
  have "undo_body f t ''move'' n u =
     (None, n + 1,
      u\<lparr>disk := AList.update f (File c) (AList.delete t (disk u)),
        printed := printed u @ [Print_Undone (path_name t) (path_parent f)]\<rparr>)"
    by simp
  then show ?thesis
    by (simp add: undo_step_complete [of _ f t "''move''"] dump_entry_def)
qed

text \<open>
  One iteration of a run of moves on a regular file: either nothing is recorded, what
  existed is as it was and only directories have been added; or the move is recorded,
  the file is at its target, which did not exist, and its source path is free.
\<close>

lemma organize_step_move_cases:
  assumes live: "\<not> dry_run opts" and mv: "\<not> copy_files opts"
    and c: "node_at (disk w) file_path = Some (File c)"
  obtains
    (none) counts' w' where
      "organize_step lib dest_path opts file_path counts w = (Inr counts', w')"
      "operations_log w' = operations_log w"
      "\<forall>p. path_exists (disk w) p \<longrightarrow> node_at (disk w') p = node_at (disk w) p"
      "\<forall>p. \<not> path_exists (disk w) p \<longrightarrow> node_at (disk w') p = None \<or> node_at (disk w') p = Some Dir"
  | (moved) counts' w' t cat where
      "organize_step lib dest_path opts file_path counts w = (Inr counts', w')"
      "operations_log w' = operations_log w @
         [\<lparr>e_operation = ''move'', e_source = file_path, e_destination = t, e_category = cat\<rparr>]"
      "\<not> path_exists (disk w) t"
      "node_at (disk w') t = Some (File c)"
      "node_at (disk w') file_path = None"
      "\<forall>p. p \<noteq> file_path \<and> p \<noteq> t \<and> path_exists (disk w) p \<longrightarrow> node_at (disk w') p = node_at (disk w) p"
      "\<forall>p. p \<noteq> t \<and> \<not> path_exists (disk w) p \<longrightarrow> node_at (disk w') p = None \<or> node_at (disk w') p = Some Dir"
proof (cases rule: organize_body_outcomes [where lib = lib and opts = opts and w = w
    and file_path = file_path and dest_path = dest_path])
  case (filter_raises warnings e)
  from organize_body_filter_raises [OF this] show ?thesis
    by (intro none [of counts
          "w\<lparr>logged := logged w @ warnings @ [Log_Error_Processing file_path e]\<rparr>"])
      (simp_all add: organize_step_body path_exists_def)
next
  case (rejected warnings)
  from organize_body_rejected [OF this] show ?thesis
    by (intro none [of counts "w\<lparr>logged := logged w @ warnings\<rparr>"])
      (simp_all add: organize_step_body path_exists_def)
next
  case (target_raises warnings e)
  from organize_body_target_raises [OF this] show ?thesis
    by (intro none [of "(fst counts + 1, snd counts)"
          "w\<lparr>logged := logged w @ warnings @ [Log_Error_Processing file_path e]\<rparr>"])
      (simp_all add: organize_step_body path_exists_def)
next
  case (dry warnings target_file)
  with live show ?thesis by simp
next
  case (mkdir_fails warnings target_file e)
  from organize_body_mkdir_fails [OF this] show ?thesis
    by (intro none [of "(fst counts + 1, snd counts)"
          "w\<lparr>logged := logged w @ warnings @ [Log_Error_Processing file_path e]\<rparr>"])
      (simp_all add: organize_step_body path_exists_def)
next
  case (transfer_fails warnings target_file fs1 e)
  have keep: "\<forall>p. path_exists (disk w) p \<longrightarrow> node_at fs1 p = node_at (disk w) p"
    using transfer_fails(4) by (simp add: mkdir_parents_preserves)
  have new: "\<forall>p. \<not> path_exists (disk w) p \<longrightarrow> node_at fs1 p = None \<or> node_at fs1 p = Some Dir"
    using mkdir_parents_new [OF transfer_fails(4)] by blast
  from organize_body_transfer_fails [OF transfer_fails] keep new show ?thesis
    by (intro none [of "(fst counts + 1, snd counts)"
          "w\<lparr>logged := logged w @ warnings @ [Log_Error_Processing file_path e], disk := fs1\<rparr>"])
      (simp_all add: organize_step_body)
next
  case (transfers warnings target_file fs1 fs2)
  let ?t = "target_file"
  let ?cat = "get_category lib (file_types w) (path_suffix (path_name file_path))"
  from c have ex: "path_exists (disk w) file_path" by (simp add: path_exists_def)
  have keep: "\<forall>p. path_exists (disk w) p \<longrightarrow> node_at fs1 p = node_at (disk w) p"
    using transfers(4) by (simp add: mkdir_parents_preserves)
  have new: "\<forall>p. \<not> path_exists (disk w) p \<longrightarrow> node_at fs1 p = None \<or> node_at fs1 p = Some Dir"
    using mkdir_parents_new [OF transfers(4)] by blast
  from keep c ex have c1: "node_at fs1 file_path = Some (File c)" by simp
  have t1: "node_at fs1 ?t = None"
    using transfers(2,4) by (rule target_file_not_made)
  have free: "\<not> path_exists (disk w) ?t"
    using transfers(2) unfolding target_file_of_def by (rule get_unique_filename_free)
  then have tne: "?t \<noteq> []" "?t \<noteq> file_path"
    using ex by (auto simp: path_exists_def node_at_root)
  from c have fne: "file_path \<noteq> []" by (auto simp: node_at_root)
  from transfers(5) mv have "shutil_move fs1 file_path ?t = Inr fs2" by simp
  from shutil_move_file_to_free [OF c1 t1 this]
  have fs2: "fs2 = AList.update ?t (File c) (AList.delete file_path fs1)" .
  let ?w' = "w\<lparr>logged := logged w @ warnings, disk := fs2,
        operations_log := operations_log w @
          [\<lparr>e_operation = ''move'', e_source = file_path, e_destination = ?t, e_category = ?cat\<rparr>],
        printed := printed w @ [Print_Done ''Moved'' (path_name file_path) ?cat]\<rparr>"
  have step: "organize_step lib dest_path opts file_path counts w
      = (Inr (fst counts + 1, snd counts + 1), ?w')"
    using organize_body_transfers [OF transfers] mv by (simp add: organize_step_body)
  show ?thesis
  proof (rule moved [of "(fst counts + 1, snd counts + 1)" ?w' ?t ?cat])
    show "organize_step lib dest_path opts file_path counts w
        = (Inr (fst counts + 1, snd counts + 1), ?w')" by (rule step)
    show "operations_log ?w' = operations_log w @
        [\<lparr>e_operation = ''move'', e_source = file_path, e_destination = ?t, e_category = ?cat\<rparr>]"
      by simp
    show "\<not> path_exists (disk w) ?t" by (rule free)
    show "node_at (disk ?w') ?t = Some (File c)"
      using tne by (simp add: fs2 node_at_update)
    show "node_at (disk ?w') file_path = None"
      using tne fne by (simp add: fs2 node_at_update node_at_delete)
    show "\<forall>p. p \<noteq> file_path \<and> p \<noteq> ?t \<and> path_exists (disk w) p \<longrightarrow>
        node_at (disk ?w') p = node_at (disk w) p"
      using keep by (auto simp: fs2 node_at_update node_at_delete node_at_root)
    show "\<forall>p. p \<noteq> ?t \<and> \<not> path_exists (disk w) p \<longrightarrow>
        node_at (disk ?w') p = None \<or> node_at (disk ?w') p = Some Dir"
      using new by (auto simp: fs2 node_at_update node_at_delete node_at_root)
  qed
qed

text \<open>
  A run of moves over distinct regular files whose ancestors are directories, followed
  by the undo of what the run has recorded, on a state with the file system the run
  has left: if none of the recorded source paths is a directory after the run, every
  record is undone, every path that existed before the run holds what it held, and
  nothing but directories has been added.
\<close>

lemma move_loop_then_undo_loop:
  assumes live: "\<not> dry_run opts" and mv: "\<not> copy_files opts"
  shows "distinct files \<Longrightarrow>
    (\<forall>f \<in> set files. is_file (disk w) f \<and> (\<forall>k. k < length f \<longrightarrow> is_dir (disk w) (take k f))) \<Longrightarrow>
    organize_loop lib dest_path opts files counts w = (Inr c1, w1) \<Longrightarrow>
    operations_log w1 = operations_log w @ new \<Longrightarrow>
    (\<forall>e \<in> set new. \<not> is_dir (disk w1) (e_source e)) \<Longrightarrow>
    disk u = disk w1 \<Longrightarrow>
    \<exists>u'. undo_loop False (map Operation (rev (map dump_entry new))) n u = (Inr (n + length new), u')
      \<and> (\<forall>p. path_exists (disk w) p \<longrightarrow> node_at (disk u') p = node_at (disk w) p)
      \<and> (\<forall>p. \<not> path_exists (disk w) p \<longrightarrow> node_at (disk u') p = None \<or> node_at (disk u') p = Some Dir)
      \<and> (\<forall>p. is_dir (disk u') p \<longrightarrow> is_dir (disk w1) p)"
proof (induction files arbitrary: w counts new)
  case Nil
  then have "w1 = w" "new = []" by simp_all
  with Nil.prems(6) show ?case
    by (auto simp: path_exists_def)
next
  case (Cons f rest)
  from Cons.prems(2) obtain c where c: "node_at (disk w) f = Some (File c)"
    by (auto simp: is_file_node)
  then have fex: "path_exists (disk w) f" and fne: "f \<noteq> []"
    by (auto simp: path_exists_def node_at_root)
  from Cons.prems(1) have dist: "distinct rest" and fnot: "f \<notin> set rest" by simp_all
  have anc: "\<forall>k. k < length f \<longrightarrow> is_dir (disk w) (take k f)"
    using Cons.prems(2) by simp
  from live mv c show ?case
  proof (cases rule: organize_step_move_cases [where lib = lib
      and dest_path = dest_path and counts = counts])
    case (none counts' w')
    from none(1) Cons.prems(3) have loop: "organize_loop lib dest_path opts rest counts' w' = (Inr c1, w1)"
      by simp
    from none(2) Cons.prems(4) have log: "operations_log w1 = operations_log w' @ new" by simp
    have ready: "\<forall>g \<in> set rest. is_file (disk w') g \<and> (\<forall>k. k < length g \<longrightarrow> is_dir (disk w') (take k g))"
    proof (intro ballI conjI allI impI)
      fix g assume g: "g \<in> set rest"
      with Cons.prems(2) have gf: "is_file (disk w) g"
        and ga: "\<forall>k. k < length g \<longrightarrow> is_dir (disk w) (take k g)" by simp_all
      from gf have "path_exists (disk w) g" by (auto simp: is_file_node path_exists_def)
      with none(3) gf show "is_file (disk w') g" by (simp add: is_file_node)
      fix k assume "k < length g"
      with ga have d: "is_dir (disk w) (take k g)" by simp
      then have "path_exists (disk w) (take k g)" by (simp add: is_dir_def path_exists_def)
      with none(3) d show "is_dir (disk w') (take k g)" by (simp add: is_dir_def)
    qed
    from Cons.IH [OF dist ready loop log Cons.prems(5,6)]
    obtain u' where u': "undo_loop False (map Operation (rev (map dump_entry new))) n u
        = (Inr (n + length new), u')"
      "\<forall>p. path_exists (disk w') p \<longrightarrow> node_at (disk u') p = node_at (disk w') p"
      "\<forall>p. \<not> path_exists (disk w') p \<longrightarrow> node_at (disk u') p = None \<or> node_at (disk u') p = Some Dir"
      "\<forall>p. is_dir (disk u') p \<longrightarrow> is_dir (disk w1) p"
      by blast
    have 1: "\<forall>p. path_exists (disk w) p \<longrightarrow> node_at (disk u') p = node_at (disk w) p"
    proof (intro allI impI)
      fix p assume p: "path_exists (disk w) p"
      with none(3) have e: "node_at (disk w') p = node_at (disk w) p" by simp
      with p have "path_exists (disk w') p" by (simp add: path_exists_def)
      with u'(2) e show "node_at (disk u') p = node_at (disk w) p" by simp
    qed
    have 2: "\<forall>p. \<not> path_exists (disk w) p \<longrightarrow> node_at (disk u') p = None \<or> node_at (disk u') p = Some Dir"
    proof (intro allI impI)
      fix p assume p: "\<not> path_exists (disk w) p"
      show "node_at (disk u') p = None \<or> node_at (disk u') p = Some Dir"
      proof (cases "path_exists (disk w') p")
        case True
        with u'(2) have "node_at (disk u') p = node_at (disk w') p" by simp
        with none(4) p show ?thesis by simp
      next
        case False
        with u'(3) show ?thesis by simp
      qed
    qed
    from u'(1) 1 2 u'(4) show ?thesis by blast
  next
    case (moved counts' w' t cat)
    let ?e = "\<lparr>e_operation = ''move'', e_source = f, e_destination = t, e_category = cat\<rparr>"
    from moved(1) Cons.prems(3) have loop: "organize_loop lib dest_path opts rest counts' w' = (Inr c1, w1)"
      by simp
    from organize_loop_log [of lib dest_path opts rest counts' w'] loop
    obtain new_rest where nr: "operations_log w1 = operations_log w' @ new_rest" by auto
    with moved(2) Cons.prems(4) have new: "new = ?e # new_rest" by simp
    from moved(3) have tne: "t \<noteq> []" "t \<noteq> f"
      using fex by (auto simp: path_exists_def node_at_root)
    have keep: "\<And>p. path_exists (disk w) p \<Longrightarrow> p \<noteq> f \<Longrightarrow> node_at (disk w') p = node_at (disk w) p"
    proof -
      fix p assume p: "path_exists (disk w) p" "p \<noteq> f"
      with moved(3) have "p \<noteq> t" by auto
      with p moved(6) show "node_at (disk w') p = node_at (disk w) p" by simp
    qed
    have dir_keep: "\<And>a. is_dir (disk w) a \<Longrightarrow> is_dir (disk w') a"
    proof -
      fix a assume a: "is_dir (disk w) a"
      with c have "a \<noteq> f" by (auto simp: is_dir_def)
      moreover from a have "path_exists (disk w) a" by (simp add: is_dir_def path_exists_def)
      ultimately show "is_dir (disk w') a" using keep a by (simp add: is_dir_def)
    qed
    have ready: "\<forall>g \<in> set rest. is_file (disk w') g \<and> (\<forall>k. k < length g \<longrightarrow> is_dir (disk w') (take k g))"
    proof (intro ballI conjI allI impI)
      fix g assume g: "g \<in> set rest"
      with Cons.prems(2) have gf: "is_file (disk w) g"
        and ga: "\<forall>k. k < length g \<longrightarrow> is_dir (disk w) (take k g)" by simp_all
      from g fnot have "g \<noteq> f" by auto
      moreover from gf have "path_exists (disk w) g" by (auto simp: is_file_node path_exists_def)
      ultimately show "is_file (disk w') g" using keep gf by (simp add: is_file_node)
      fix k assume "k < length g"
      with ga show "is_dir (disk w') (take k g)" by (simp add: dir_keep)
    qed
    from Cons.prems(5) new have H: "\<forall>e \<in> set new_rest. \<not> is_dir (disk w1) (e_source e)"
      and Hf: "\<not> is_dir (disk w1) f" by simp_all
    from Cons.IH [OF dist ready loop nr H Cons.prems(6)]
    obtain u'' where u'': "undo_loop False (map Operation (rev (map dump_entry new_rest))) n u
        = (Inr (n + length new_rest), u'')"
      "\<forall>p. path_exists (disk w') p \<longrightarrow> node_at (disk u'') p = node_at (disk w') p"
      "\<forall>p. \<not> path_exists (disk w') p \<longrightarrow> node_at (disk u'') p = None \<or> node_at (disk u'') p = Some Dir"
      "\<forall>p. is_dir (disk u'') p \<longrightarrow> is_dir (disk w1) p"
      by blast
    from moved(4) have "path_exists (disk w') t" by (simp add: path_exists_def)
    with u''(2) moved(4) have t2: "node_at (disk u'') t = Some (File c)" by simp
    from u''(4) Hf have f2: "\<not> is_dir (disk u'') f" by blast
    have anc2: "\<forall>k. k < length f \<longrightarrow> is_dir (disk u'') (take k f)"
    proof (intro allI impI)
      fix k assume "k < length f"
      with anc have "is_dir (disk w') (take k f)" by (simp add: dir_keep)
      moreover from this have "path_exists (disk w') (take k f)" by (simp add: is_dir_def path_exists_def)
      ultimately show "is_dir (disk u'') (take k f)" using u''(2) by (simp add: is_dir_def)
    qed
    let ?u' = "u''\<lparr>disk := AList.update f (File c) (AList.delete t (disk u'')),
        printed := printed u'' @ [Print_Undone (path_name t) (path_parent f)]\<rparr>"
    from undo_step_move_back [OF t2 f2 anc2, of cat "n + length new_rest"]
    have step: "undo_step False (dump_entry ?e) (n + length new_rest) u''
        = (Inr (n + length new_rest + 1), ?u')" .
    have run: "undo_loop False (map Operation (rev (map dump_entry new))) n u
        = (Inr (n + length new), ?u')"
      using u''(1) step by (simp add: new undo_loop_append undo_element_def)
    have 1: "\<forall>p. path_exists (disk w) p \<longrightarrow> node_at (disk ?u') p = node_at (disk w) p"
    proof (intro allI impI)
      fix p assume p: "path_exists (disk w) p"
      show "node_at (disk ?u') p = node_at (disk w) p"
      proof (cases "p = f")
        case True
        with c fne show ?thesis by (simp add: node_at_update)
      next
        case False
        from p moved(3) have pt: "p \<noteq> t" by auto
        from keep [OF p False] have e: "node_at (disk w') p = node_at (disk w) p" .
        with p have "path_exists (disk w') p" by (simp add: path_exists_def)
        with u''(2) e have "node_at (disk u'') p = node_at (disk w) p" by simp
        with False pt show ?thesis by (simp add: node_at_update node_at_delete node_at_root)
      qed
    qed
    have 2: "\<forall>p. \<not> path_exists (disk w) p \<longrightarrow> node_at (disk ?u') p = None \<or> node_at (disk ?u') p = Some Dir"
    proof (intro allI impI)
      fix p assume p: "\<not> path_exists (disk w) p"
      with fex have pf: "p \<noteq> f" by auto
      from p have pne: "p \<noteq> []" by (auto simp: path_exists_def node_at_root)
      show "node_at (disk ?u') p = None \<or> node_at (disk ?u') p = Some Dir"
      proof (cases "p = t")
        case True
        with tne show ?thesis by (simp add: node_at_update node_at_delete)
      next
        case False
        have "node_at (disk u'') p = None \<or> node_at (disk u'') p = Some Dir"
        proof (cases "path_exists (disk w') p")
          case True
          with u''(2) have "node_at (disk u'') p = node_at (disk w') p" by simp
          with moved(7) False p show ?thesis by simp
        next
          case False
          with u''(3) show ?thesis by simp
        qed
        with False pf pne show ?thesis by (simp add: node_at_update node_at_delete)
      qed
    qed
    have 3: "\<forall>p. is_dir (disk ?u') p \<longrightarrow> is_dir (disk w1) p"
    proof (intro allI impI)
      fix p assume d: "is_dir (disk ?u') p"
      then have "is_dir (disk u'') p"
        by (auto simp: is_dir_def node_at_update node_at_delete node_at_root split: if_splits)
      with u''(4) show "is_dir (disk w1) p" by simp
    qed
    from run 1 2 3 show ?thesis by blast
  qed
qed

lemma move_run_then_undo_restores:
  assumes wf: "wf_fs (disk w)" and live: "\<not> dry_run opts" and mv: "\<not> copy_files opts"
    and fresh: "operations_log w = []"
    and run: "organize_files lib src_path dest_path opts w = (Inr counts, w1)"
    and free: "\<forall>e \<in> set (operations_log w1). \<not> is_dir (disk w1) (e_source e)"
  shows "\<exists>w2. undo_operations (save_undo_log w1) False (new_organizer (disk w1))
        = (Inr (length (operations_log w1)), w2)
      \<and> (\<forall>p. path_exists (disk w) p \<longrightarrow> node_at (disk w2) p = node_at (disk w) p)
      \<and> (\<forall>p. \<not> path_exists (disk w) p \<longrightarrow> node_at (disk w2) p = None \<or> node_at (disk w2) p = Some Dir)"
proof -
  let ?files = "candidate_files (disk w) src_path (recursive opts)"
  let ?u = "new_organizer (disk w1)"
  from run have loop: "organize_loop lib dest_path opts ?files (0, 0) w = (Inr counts, w1)"
    by (simp add: organize_files_def split: if_splits)
  have ready: "\<forall>f \<in> set ?files. is_file (disk w) f \<and> (\<forall>k. k < length f \<longrightarrow> is_dir (disk w) (take k f))"
  proof (intro ballI conjI allI impI)
    fix f assume "f \<in> set ?files"
    then show f: "is_file (disk w) f" by (rule candidate_files_is_file)
    then have "path_exists (disk w) f" by (auto simp: is_file_node path_exists_def)
    fix k assume "k < length f"
    with wf \<open>path_exists (disk w) f\<close> show "is_dir (disk w) (take k f)"
      by (rule wf_fs_ancestors)
  qed
  have log: "operations_log w1 = operations_log w @ operations_log w1"
    using fresh by simp
  have u: "disk ?u = disk w1" by (simp add: new_organizer_def)
  from move_loop_then_undo_loop [OF live mv candidate_files_distinct ready loop log free u, of 0]
  obtain u' where u': "undo_loop False (map Operation (rev (map dump_entry (operations_log w1)))) 0 ?u
        = (Inr (length (operations_log w1)), u')"
    "\<forall>p. path_exists (disk w) p \<longrightarrow> node_at (disk u') p = node_at (disk w) p"
    "\<forall>p. \<not> path_exists (disk w) p \<longrightarrow> node_at (disk u') p = None \<or> node_at (disk u') p = Some Dir"
    by auto
  show ?thesis
  proof (cases "operations_log w1 = []")
    case True
    with u'(1) have "u' = ?u" by simp
    with u'(2,3) True show ?thesis
      by (simp add: undo_operations_def undo_try_def save_undo_log_def except_match_def)
  next
    case False
    have "rev (map (\<lambda>e. Operation (dump_entry e)) (operations_log w1))
        = map Operation (rev (map dump_entry (operations_log w1)))"
      by (simp add: rev_map)
    with False u'(1) have "undo_operations (save_undo_log w1) False ?u
        = (Inr (length (operations_log w1)), u')"
      by (simp add: undo_operations_def undo_try_def save_undo_log_def)
    with u'(2,3) show ?thesis by blast
  qed
qed


text \<open>
  The recursive run on the two files named \<open>x.jpg\<close> meets these conditions: after it,
  neither source path is a directory, and the undo of its ledger restores both files.
\<close>

lemma move_run_then_undo_restores_twins:
  "wf_fs fs_twins
   \<and> (\<exists>w2. undo_operations
          (save_undo_log (snd (organize_files example_library [''s''] [''o'']
             (default_options\<lparr>recursive := True\<rparr>) (new_organizer fs_twins))))
          False (new_organizer fs_twins_moved) = (Inr 2, w2)
        \<and> node_at (disk w2) [''s'', ''a'', ''x.jpg''] = Some (File ''one'')
        \<and> node_at (disk w2) [''s'', ''b'', ''x.jpg''] = Some (File ''two'')
        \<and> node_at (disk w2) [''o'', ''Images'', ''x.jpg''] = None
        \<and> node_at (disk w2) [''o'', ''Images'', ''x_1.jpg''] = None)"
proof -
  let ?opts = "default_options\<lparr>recursive := True\<rparr>"
  let ?w = "new_organizer fs_twins"
  let ?r = "organize_files example_library [''s''] [''o''] ?opts ?w"
  have wf: "wf_fs (disk ?w)" by code_simp
  have live: "\<not> dry_run ?opts" and mv: "\<not> copy_files ?opts"
    by (simp_all add: default_options_def)
  have fresh: "operations_log ?w = []" by (simp add: new_organizer_def)
  have run: "?r = (Inr (2, 2), snd ?r)" by code_simp
  have d: "disk (snd ?r) = fs_twins_moved" by code_simp
  have n: "length (operations_log (snd ?r)) = 2" by code_simp
  have free: "\<forall>e \<in> set (operations_log (snd ?r)). \<not> is_dir (disk (snd ?r)) (e_source e)"
    by code_simp
  have before: "node_at (disk ?w) [''s'', ''a'', ''x.jpg''] = Some (File ''one'')"
    "node_at (disk ?w) [''s'', ''b'', ''x.jpg''] = Some (File ''two'')"
    "node_at (disk ?w) [''o'', ''Images'', ''x.jpg''] = None"
    "node_at (disk ?w) [''o'', ''Images'', ''x_1.jpg''] = None"
    by code_simp+
  from move_run_then_undo_restores [OF wf live mv fresh run free]
  obtain w2 where w2: "undo_operations (save_undo_log (snd ?r)) False (new_organizer (disk (snd ?r)))
        = (Inr (length (operations_log (snd ?r))), w2)"
    "\<forall>p. path_exists (disk ?w) p \<longrightarrow> node_at (disk w2) p = node_at (disk ?w) p"
    "\<forall>p. \<not> path_exists (disk ?w) p \<longrightarrow> node_at (disk w2) p = None \<or> node_at (disk w2) p = Some Dir"
    by blast
  have a: "node_at (disk w2) [''s'', ''a'', ''x.jpg''] = Some (File ''one'')"
    "node_at (disk w2) [''s'', ''b'', ''x.jpg''] = Some (File ''two'')"
    using w2(2) before(1,2) by (simp_all add: path_exists_def)
  have gone: "node_at (disk w2) [''o'', ''Images'', ''x.jpg''] = None"
    "node_at (disk w2) [''o'', ''Images'', ''x_1.jpg''] = None"
  proof -
    have "undo_operations (save_undo_log (snd ?r)) False (new_organizer fs_twins_moved)
        = (Inr 2, w2)"
      using w2(1) by (simp only: d n)
    moreover have "node_at (disk (snd (undo_operations (save_undo_log (snd ?r)) False
        (new_organizer fs_twins_moved)))) [''o'', ''Images'', ''x.jpg''] = None"
      "node_at (disk (snd (undo_operations (save_undo_log (snd ?r)) False
        (new_organizer fs_twins_moved)))) [''o'', ''Images'', ''x_1.jpg''] = None"
      by code_simp+
    ultimately show "node_at (disk w2) [''o'', ''Images'', ''x.jpg''] = None"
      "node_at (disk w2) [''o'', ''Images'', ''x_1.jpg''] = None"
      by simp_all
  qed
  have "undo_operations (save_undo_log (snd ?r)) False (new_organizer fs_twins_moved) = (Inr 2, w2)"
    using w2(1) by (simp only: d n)
  with a gone have "\<exists>w2. undo_operations (save_undo_log (snd ?r)) False (new_organizer fs_twins_moved)
        = (Inr 2, w2)
      \<and> node_at (disk w2) [''s'', ''a'', ''x.jpg''] = Some (File ''one'')
      \<and> node_at (disk w2) [''s'', ''b'', ''x.jpg''] = Some (File ''two'')
      \<and> node_at (disk w2) [''o'', ''Images'', ''x.jpg''] = None
      \<and> node_at (disk w2) [''o'', ''Images'', ''x_1.jpg''] = None"
    by blast
  moreover have "wf_fs fs_twins" by code_simp
  ultimately show ?thesis by blast
qed

subsection \<open>Organizing a directory in place, then undoing\<close>

lemma inplace_organized_eq:
  "inplace_organized =
     (Inr (2, 2),
      \<lparr>file_types = DEFAULT_FILE_TYPES,
       operations_log =
         [\<lparr>e_operation = ''move'', e_source = [''d'', ''Images''],
            e_destination = [''d'', ''Other'', ''Images''], e_category = ''Other''\<rparr>,
          \<lparr>e_operation = ''move'', e_source = [''d'', ''x.jpg''],
            e_destination = [''d'', ''Images'', ''x.jpg''], e_category = ''Images''\<rparr>],
       disk =
         [([''d''], Dir), ([''d'', ''Other''], Dir), ([''d'', ''Other'', ''Images''], File ''raw''),
          ([''d'', ''Images''], Dir), ([''d'', ''Images'', ''x.jpg''], File ''jpeg'')],
       printed = [Print_Done ''Moved'' ''Images'' ''Other'', Print_Done ''Moved'' ''x.jpg'' ''Images''],
       logged = []\<rparr>)"
  unfolding inplace_organized_def by code_simp

lemma inplace_undone_eq:
  "inplace_undone =
     (Inr 2,
      \<lparr>file_types = DEFAULT_FILE_TYPES,
       operations_log = [],
       disk =
         [([''d''], Dir), ([''d'', ''Other''], Dir), ([''d'', ''Images''], Dir),
          ([''d'', ''x.jpg''], File ''jpeg''), ([''d'', ''Images'', ''Images''], File ''raw'')],
       printed = [Print_Undone ''x.jpg'' [''d''], Print_Undone ''Images'' [''d'']],
       logged = []\<rparr>)"
  unfolding inplace_undone_def inplace_organized_eq by code_simp

text \<open>
  Claim C1 states that undoing the ledger of a move run restores every transferred file
  to its original path. Here the run (moves, no filters, not a dry run) transfers both
  files: \<open>d/Images\<close> goes to \<open>d/Other/Images\<close>, and then \<open>x.jpg\<close> goes to
  \<open>d/Images/x.jpg\<close>, for which the run creates the directory \<open>d/Images\<close> at the path the
  first file has left. Undoing the saved ledger moves \<open>x.jpg\<close> back, and then calls
  \<open>shutil.move("d/Other/Images", "d/Images")\<close> while \<open>d/Images\<close> is a directory: the
  file is moved inside it. The undo reports both operations undone, yet the file that
  was at \<open>d/Images\<close> is at \<open>d/Images/Images\<close> and its original path holds a directory.
\<close>

theorem undo_after_inplace_run_misplaces_file:
  "wf_fs fs_inplace
   \<and> node_at fs_inplace [''d'', ''Images''] = Some (File ''raw'')
   \<and> fst inplace_organized = Inr (2, 2)
   \<and> map (\<lambda>e. (e_operation e, e_source e, e_destination e)) (operations_log (snd inplace_organized))
       = [(''move'', [''d'', ''Images''], [''d'', ''Other'', ''Images'']),
          (''move'', [''d'', ''x.jpg''], [''d'', ''Images'', ''x.jpg''])]
   \<and> fst inplace_undone = Inr 2
   \<and> node_at (disk (snd inplace_undone)) [''d'', ''x.jpg''] = Some (File ''jpeg'')
   \<and> node_at (disk (snd inplace_undone)) [''d'', ''Images''] = Some Dir
   \<and> node_at (disk (snd inplace_undone)) [''d'', ''Images'', ''Images''] = Some (File ''raw'')"
proof -
  have "wf_fs fs_inplace"
    by code_simp
  moreover have "node_at fs_inplace [''d'', ''Images''] = Some (File ''raw'')"
    by (simp add: node_at_def fs_inplace_def)
  ultimately show ?thesis
    by (simp add: inplace_organized_eq inplace_undone_eq node_at_def)
qed

end
